theory Spec2Isabelle
  imports Complex_Main "HOL-Library.Multiset"
begin

section \<open>Loan payoff prioritisation (loanpayoff.py)\<close>

text \<open>
  The program is one function, \<^verbatim>\<open>analyze_loan_payoff_strategy(loans)\<close>, that loads a list
  of loan dictionaries into a pandas DataFrame, adds five computed columns, sorts the
  frame three times and returns the three sorted frames with a summary.

  What the embedding fixes about the libraries the function calls:
  \<^item> A float64 cell is a value of \<open>np_float\<close>: a real number, plus or minus infinity, or
    NaN. The special values follow IEEE 754 as numpy applies them (division by zero and
    \<^verbatim>\<open>log(0)\<close> give an infinity or NaN, they do not raise). In the monthly interest of
    line 21, which is rounded to cents, every float64 operation rounds its result to the
    nearest float64 (\<open>fl\<close> below), since there the rounding error decides the cent.
    Elsewhere finite values are exact reals. Overflow, subnormal numbers and the sign of
    zero are not modelled, and neither is the float64 (or int64) value of the two sums of
    the summary, which depends on numpy's summation order and on the column's dtype.
  \<^item> \<^verbatim>\<open>pd.DataFrame(list_of_dicts)\<close> has one column per key that occurs in some
    dictionary; a dictionary without that key gets a NaN cell. Row labels are the input
    positions 0, 1, 2, ...
  \<^item> \<^verbatim>\<open>sort_values(col, ascending=False)\<close> runs with its defaults
    \<^verbatim>\<open>kind='quicksort'\<close> and \<^verbatim>\<open>na_position='last'\<close>. numpy documents quicksort as
    not stable, and which order tied values take depends on the numpy build, so the
    argsort routine is a parameter \<open>argsort\<close> of the model, constrained only by
    \<open>argsort_contract\<close> below. What the rankings do with ties is therefore not fixed
    by the model.
\<close>

subsection \<open>float64 cells\<close>

datatype np_float = NaN | NInf | Fin real | PInf

fun is_finite :: "np_float \<Rightarrow> bool" where
  "is_finite (Fin x) = True"
| "is_finite _ = False"

text \<open>Comparison as IEEE 754 has it: every comparison with NaN is false.\<close>

fun flt :: "np_float \<Rightarrow> np_float \<Rightarrow> bool" where
  "flt NaN _ = False"
| "flt _ NaN = False"
| "flt _ NInf = False"
| "flt NInf _ = True"
| "flt PInf _ = False"
| "flt (Fin a) (Fin b) = (a < b)"
| "flt (Fin a) PInf = True"

fun fle :: "np_float \<Rightarrow> np_float \<Rightarrow> bool" where
  "fle NaN _ = False"
| "fle _ NaN = False"
| "fle NInf _ = True"
| "fle _ PInf = True"
| "fle PInf _ = False"
| "fle (Fin a) (Fin b) = (a \<le> b)"
| "fle (Fin a) NInf = False"

text \<open>The sign of a non-NaN value, and the infinity (or NaN, for 0) with a given sign.\<close>

fun sign_of :: "np_float \<Rightarrow> real" where
  "sign_of (Fin a) = sgn a"
| "sign_of PInf = 1"
| "sign_of NInf = - 1"
| "sign_of NaN = 0"

definition inf_of_sign :: "real \<Rightarrow> np_float" where
  "inf_of_sign s = (if 0 < s then PInf else if s < 0 then NInf else NaN)"

fun fneg :: "np_float \<Rightarrow> np_float" where
  "fneg (Fin a) = Fin (- a)"
| "fneg PInf = NInf"
| "fneg NInf = PInf"
| "fneg NaN = NaN"

fun fadd :: "np_float \<Rightarrow> np_float \<Rightarrow> np_float" where
  "fadd NaN _ = NaN"
| "fadd _ NaN = NaN"
| "fadd (Fin a) (Fin b) = Fin (a + b)"
| "fadd PInf NInf = NaN"
| "fadd NInf PInf = NaN"
| "fadd PInf _ = PInf"
| "fadd NInf _ = NInf"
| "fadd (Fin a) y = y"

fun fmul :: "np_float \<Rightarrow> np_float \<Rightarrow> np_float" where
  "fmul NaN _ = NaN"
| "fmul _ NaN = NaN"
| "fmul (Fin a) (Fin b) = Fin (a * b)"
| "fmul x y = inf_of_sign (sign_of x * sign_of y)"

fun fdiv :: "np_float \<Rightarrow> np_float \<Rightarrow> np_float" where
  "fdiv NaN _ = NaN"
| "fdiv _ NaN = NaN"
| "fdiv (Fin a) (Fin b) = (if b = 0 then inf_of_sign (sgn a) else Fin (a / b))"
| "fdiv (Fin a) _ = Fin 0"
| "fdiv x (Fin b) = (if b < 0 then fneg x else x)"
| "fdiv _ _ = NaN"

text \<open>\<^verbatim>\<open>np.log\<close>: minus infinity at 0, NaN below 0.\<close>

fun flog :: "np_float \<Rightarrow> np_float" where
  "flog (Fin a) = (if 0 < a then Fin (ln a) else if a = 0 then NInf else NaN)"
| "flog PInf = PInf"
| "flog _ = NaN"

text \<open>\<^verbatim>\<open>np.rint\<close>: to the nearest integer, a tie to the even neighbour.\<close>

definition rint :: "real \<Rightarrow> real" where
  "rint x =
     (let f = \<lfloor>x\<rfloor>; d = x - of_int f
      in if d < 1 / 2 then of_int f
         else if 1 / 2 < d then of_int (f + 1)
         else if even f then of_int f else of_int (f + 1))"

text \<open>
  The float64 nearest to a real number, a tie to the even significand (the rounding of
  every IEEE 754 operation): with \<open>2 ^ e \<le> \<bar>x\<bar> < 2 ^ (e + 1)\<close> the float64 numbers around
  \<open>x\<close> are the multiples of \<open>2 ^ (e - 52)\<close>. The exponent is not bounded.
\<close>

definition fl :: "real \<Rightarrow> real" where
  "fl x =
     (if x = 0 then 0
      else rint (x / 2 powr (of_int \<lfloor>log 2 \<bar>x\<bar>\<rfloor> - 52)) * 2 powr (of_int \<lfloor>log 2 \<bar>x\<bar>\<rfloor> - 52))"

fun fround :: "np_float \<Rightarrow> np_float" where
  "fround (Fin a) = Fin (fl a)"
| "fround x = x"

text \<open>
  \<^verbatim>\<open>Series.round(2)\<close> is numpy's round on a float64: multiply by 100, \<open>rint\<close>, divide
  by 100, the product and the quotient being float64 operations.
\<close>

definition round2 :: "real \<Rightarrow> real" where
  "round2 x = fl (rint (fl (x * 100)) / 100)"

fun fround2 :: "np_float \<Rightarrow> np_float" where
  "fround2 (Fin a) = Fin (round2 a)"
| "fround2 x = x"

text \<open>
  Line 21 on finite cells: the float64 value of \<^verbatim>\<open>principal * (rate/100) / 12\<close>, three
  float64 operations from left to right.
\<close>

definition interest64 :: "real \<Rightarrow> real \<Rightarrow> real" where
  "interest64 p q = fl (fl (p * fl (q / 100)) / 12)"

subsection \<open>The input and the frame\<close>

text \<open>
  A loan dictionary. Each \<open>get_\<close> field is \<^verbatim>\<open>dict.get(key)\<close>: \<open>None\<close> when the
  dictionary has no such key.
\<close>

record loan_dict =
  get_name :: "string option"
  get_principal :: "np_float option"
  get_rate :: "np_float option"
  get_min_payment :: "np_float option"

datatype error = KeyError string | AllNA

text \<open>
  A row of the frame after lines 18 to 29: its label, the four input columns and the
  five computed ones. A \<open>name\<close> of \<open>None\<close> is the NaN cell of a dictionary without
  \<^verbatim>\<open>'name'\<close>. (When no dictionary has \<^verbatim>\<open>'min_payment'\<close> the frame has no such column;
  the function never reads it, and the model then holds NaN there.)
\<close>

record row =
  label :: nat
  name :: "string option"
  principal :: np_float
  rate :: np_float
  min_payment :: np_float
  monthly_interest :: np_float
  interest_principal_ratio :: np_float
  avalanche_score :: np_float
  snowball_score :: np_float
  balanced_score :: np_float

definition has_column :: "(loan_dict \<Rightarrow> 'a option) \<Rightarrow> loan_dict list \<Rightarrow> bool" where
  "has_column get loans = list_ex (\<lambda>l. get l \<noteq> None) loans"

definition cell :: "np_float option \<Rightarrow> np_float" where
  "cell v = (case v of None \<Rightarrow> NaN | Some x \<Rightarrow> x)"

text \<open>Lines 18 to 29 for one dictionary at input position \<open>i\<close>.\<close>

definition make_row :: "nat \<Rightarrow> loan_dict \<Rightarrow> row" where
  "make_row i l =
     (let p = cell (get_principal l); r = cell (get_rate l)
      in \<lparr> label = i, name = get_name l, principal = p, rate = r,
           min_payment = cell (get_min_payment l),
           monthly_interest =
             fround2 (fround (fdiv (fround (fmul p (fround (fdiv r (Fin 100))))) (Fin 12))),
           interest_principal_ratio = fdiv (fdiv r (Fin 100)) p,
           avalanche_score = r,
           snowball_score = fneg p,
           balanced_score = fmul r (flog p) \<rparr>)"

definition make_frame :: "loan_dict list \<Rightarrow> row list" where
  "make_frame loans = map (\<lambda>i. make_row i (loans ! i)) [0..<length loans]"

subsection \<open>Sorting\<close>

text \<open>
  pandas' \<^verbatim>\<open>nargsort\<close> for \<^verbatim>\<open>ascending=False, na_position='last'\<close>: the non-NaN
  values and their positions are reversed, argsorted ascending, the result is reversed,
  and the positions of the NaN values are appended in input order.
\<close>

definition nargsort :: "(np_float list \<Rightarrow> nat list) \<Rightarrow> np_float list \<Rightarrow> nat list" where
  "nargsort argsort items =
     (let idx = [0..<length items];
          non_nan_idx = rev (filter (\<lambda>i. items ! i \<noteq> NaN) idx);
          non_nans = map (\<lambda>i. items ! i) non_nan_idx;
          nan_idx = filter (\<lambda>i. items ! i = NaN) idx;
          indexer = rev (map (\<lambda>k. non_nan_idx ! k) (argsort non_nans))
      in indexer @ nan_idx)"

definition sort_values ::
  "(np_float list \<Rightarrow> nat list) \<Rightarrow> (row \<Rightarrow> np_float) \<Rightarrow> row list \<Rightarrow> row list" where
  "sort_values argsort col df = map (\<lambda>i. df ! i) (nargsort argsort (map col df))"

text \<open>
  What numpy promises of \<^verbatim>\<open>argsort\<close> on values without NaN: a permutation of the
  positions that puts the values in ascending order.
\<close>

definition argsort_contract :: "(np_float list \<Rightarrow> nat list) \<Rightarrow> bool" where
  "argsort_contract argsort =
     (\<forall>v. NaN \<notin> set v \<longrightarrow>
        mset (argsort v) = mset [0..<length v] \<and>
        sorted_wrt (\<lambda>i j. fle (v ! i) (v ! j)) (argsort v))"

text \<open>An argsort is stable when equal values keep the order of their positions.\<close>

definition argsort_stable :: "(np_float list \<Rightarrow> nat list) \<Rightarrow> bool" where
  "argsort_stable argsort =
     (\<forall>v. NaN \<notin> set v \<longrightarrow> sorted_wrt (\<lambda>i j. v ! i = v ! j \<longrightarrow> i < j) (argsort v))"

text \<open>
  An argsort that meets the contract: the insertion sort over the positions (which numpy's
  quicksort runs on short arrays). It inserts a position after the values equal to its
  own, and is stable.
\<close>

fun insert_by ::
  "(np_float \<Rightarrow> np_float \<Rightarrow> bool) \<Rightarrow> np_float list \<Rightarrow> nat \<Rightarrow> nat list \<Rightarrow> nat list" where
  "insert_by before v i [] = [i]"
| "insert_by before v i (k # ks) =
     (if before (v ! i) (v ! k) then i # k # ks else k # insert_by before v i ks)"

definition argsort_by :: "(np_float \<Rightarrow> np_float \<Rightarrow> bool) \<Rightarrow> np_float list \<Rightarrow> nat list" where
  "argsort_by before v = fold (insert_by before v) [0..<length v] []"

definition stable_argsort :: "np_float list \<Rightarrow> nat list" where
  "stable_argsort = argsort_by flt"

subsection \<open>Reductions\<close>

text \<open>
  \<^verbatim>\<open>Series.sum()\<close> skips NaN (\<^verbatim>\<open>skipna=True\<close>). The finite values are added exactly
  here; the float64 or int64 sum that numpy computes is not modelled, and no statement
  below is about the value of a sum.
\<close>

definition nansum :: "np_float list \<Rightarrow> np_float" where
  "nansum v = foldl fadd (Fin 0) (filter (\<lambda>x. x \<noteq> NaN) v)"

text \<open>
  \<^verbatim>\<open>np.argmax\<close> and \<^verbatim>\<open>np.argmin\<close> scan from the left and keep the first extremal
  position.
\<close>

fun arg_scan ::
  "(np_float \<Rightarrow> np_float \<Rightarrow> bool) \<Rightarrow> np_float list \<Rightarrow> nat \<Rightarrow> nat \<Rightarrow> np_float \<Rightarrow> nat" where
  "arg_scan better [] i best bv = best"
| "arg_scan better (x # xs) i best bv =
     (if better x bv then arg_scan better xs (Suc i) i x
      else arg_scan better xs (Suc i) best bv)"

definition argmax :: "np_float list \<Rightarrow> nat" where
  "argmax v = (case v of [] \<Rightarrow> 0 | x # xs \<Rightarrow> arg_scan (\<lambda>a b. flt b a) xs 1 0 x)"

definition argmin :: "np_float list \<Rightarrow> nat" where
  "argmin v = (case v of [] \<Rightarrow> 0 | x # xs \<Rightarrow> arg_scan (\<lambda>a b. flt a b) xs 1 0 x)"

text \<open>
  \<^verbatim>\<open>Series.idxmax()\<close> and \<^verbatim>\<open>idxmin()\<close> skip NaN: the result is the position of the
  first maximum (minimum) among the cells that are not NaN. On a column with no such
  cell no label results: current pandas raises \<^verbatim>\<open>ValueError('Encountered all NA values')\<close>,
  older versions return NaN and the \<^verbatim>\<open>df.loc\<close> lookup of that label raises
  \<^verbatim>\<open>KeyError(nan)\<close>. Both are the error \<open>AllNA\<close> here; it names no column.
\<close>

definition idxmax :: "np_float list \<Rightarrow> error + nat" where
  "idxmax v =
     (let keep = filter (\<lambda>i. v ! i \<noteq> NaN) [0..<length v]
      in if keep = [] then Inl AllNA else Inr (keep ! argmax (map (\<lambda>i. v ! i) keep)))"

definition idxmin :: "np_float list \<Rightarrow> error + nat" where
  "idxmin v =
     (let keep = filter (\<lambda>i. v ! i \<noteq> NaN) [0..<length v]
      in if keep = [] then Inl AllNA else Inr (keep ! argmin (map (\<lambda>i. v ! i) keep)))"

subsection \<open>The analysis\<close>

record strategies =
  avalanche_method :: "row list"
  snowball_method :: "row list"
  balanced_method :: "row list"

record summary =
  total_debt :: np_float
  total_monthly_interest :: np_float
  highest_interest_loan :: "string option"
  smallest_balance_loan :: "string option"
  most_expensive_loan :: "string option"

record analysis =
  strategies :: strategies
  summary :: summary

text \<open>
  \<^verbatim>\<open>df.loc[label, 'name']\<close> with a label that \<open>idxmax\<close> or \<open>idxmin\<close> returned: KeyError
  when the frame has no \<^verbatim>\<open>'name'\<close> column.
\<close>

definition loc_name :: "loan_dict list \<Rightarrow> row list \<Rightarrow> nat \<Rightarrow> error + string option" where
  "loc_name loans df i =
     (if has_column get_name loans then Inr (name (df ! i)) else Inl (KeyError ''name''))"

definition lookup_name ::
  "loan_dict list \<Rightarrow> row list \<Rightarrow> error + nat \<Rightarrow> error + string option" where
  "lookup_name loans df r = (case r of Inl e \<Rightarrow> Inl e | Inr i \<Rightarrow> loc_name loans df i)"

text \<open>
  The function, in the order in which its lines can raise: the column lookups of line 21,
  then (lines 24 to 40 cannot raise) the three lookups of lines 47 to 49.
\<close>

definition analyze_loan_payoff_strategy ::
  "(np_float list \<Rightarrow> nat list) \<Rightarrow> loan_dict list \<Rightarrow> error + analysis" where
  "analyze_loan_payoff_strategy argsort loans =
     (if \<not> has_column get_principal loans then Inl (KeyError ''principal'')
      else if \<not> has_column get_rate loans then Inl (KeyError ''rate'')
      else
        let df = make_frame loans;
            strats = \<lparr> avalanche_method = sort_values argsort avalanche_score df,
                       snowball_method = sort_values argsort snowball_score df,
                       balanced_method = sort_values argsort balanced_score df \<rparr>;
            debt = nansum (map principal df);
            interest = nansum (map monthly_interest df)
        in case lookup_name loans df (idxmax (map rate df)) of
             Inl e \<Rightarrow> Inl e
           | Inr highest \<Rightarrow>
         (case lookup_name loans df (idxmin (map principal df)) of
             Inl e \<Rightarrow> Inl e
           | Inr smallest \<Rightarrow>
         (case lookup_name loans df (idxmax (map monthly_interest df)) of
             Inl e \<Rightarrow> Inl e
           | Inr expensive \<Rightarrow>
               Inr \<lparr> strategies = strats,
                     summary = \<lparr> total_debt = debt, total_monthly_interest = interest,
                                 highest_interest_loan = highest,
                                 smallest_balance_loan = smallest,
                                 most_expensive_loan = expensive \<rparr> \<rparr>)))"

subsection \<open>Properties of inputs and rankings\<close>

text \<open>
  A dictionary that supplies what the data model asks for: a name, and a principal and a
  rate that are numbers (not missing, NaN or infinite).
\<close>

definition complete_loan :: "loan_dict \<Rightarrow> bool" where
  "complete_loan l =
     (get_name l \<noteq> None \<and> is_finite (cell (get_principal l)) \<and> is_finite (cell (get_rate l)))"


text \<open>
  A ranking keeps the input order of ties: of two rows with the same value in the column,
  the one that is earlier in the ranking has the smaller label (input position).
\<close>

definition keeps_input_order :: "(row \<Rightarrow> np_float) \<Rightarrow> row list \<Rightarrow> bool" where
  "keeps_input_order col ranking =
     sorted_wrt (\<lambda>a b. col a = col b \<longrightarrow> label a < label b) ranking"

text \<open>No row with principal 0 stands before a row with a positive principal.\<close>

definition zero_after_positive :: "row list \<Rightarrow> bool" where
  "zero_after_positive ranking =
     sorted_wrt (\<lambda>a b. \<not> (principal a = Fin 0 \<and> flt (Fin 0) (principal b))) ranking"

text \<open>
  A ranking holds every input position once, and each of its rows is the row computed
  from the dictionary at its own position alone.
\<close>

definition rows_of_input :: "loan_dict list \<Rightarrow> row list \<Rightarrow> bool" where
  "rows_of_input loans ranking =
     (mset (map label ranking) = mset [0..<length loans] \<and>
      (\<forall>r \<in> set ranking. r = make_row (label r) (loans ! label r)))"

text \<open>Position \<open>i\<close> is the first one that holds the maximum (minimum) of \<open>v\<close>.\<close>

definition first_max :: "np_float list \<Rightarrow> nat \<Rightarrow> bool" where
  "first_max v i =
     (i < length v \<and> (\<forall>j < length v. fle (v ! j) (v ! i)) \<and> (\<forall>j < i. flt (v ! j) (v ! i)))"

definition first_min :: "np_float list \<Rightarrow> nat \<Rightarrow> bool" where
  "first_min v i =
     (i < length v \<and> (\<forall>j < length v. fle (v ! i) (v ! j)) \<and> (\<forall>j < i. flt (v ! i) (v ! j)))"

text \<open>The real number in a finite cell (0 for the other cells).\<close>

fun the_real :: "np_float \<Rightarrow> real" where
  "the_real (Fin x) = x"
| "the_real _ = 0"

subsection \<open>Example inputs\<close>

text \<open>A dictionary with all four keys.\<close>

definition loan :: "string \<Rightarrow> real \<Rightarrow> real \<Rightarrow> real \<Rightarrow> loan_dict" where
  "loan n p q m =
     \<lparr> get_name = Some n, get_principal = Some (Fin p), get_rate = Some (Fin q),
       get_min_payment = Some (Fin m) \<rparr>"

text \<open>The scenario of the specification: A and C share the rate 10.\<close>

definition scenario :: "loan_dict list" where
  "scenario = [loan ''A'' 1000 10 20, loan ''B'' 500 5 10, loan ''C'' 2000 10 40]"

text \<open>A paid-off loan (principal 0) between two loans of principal 1.\<close>

definition paid_off_scenario :: "loan_dict list" where
  "paid_off_scenario = [loan ''P'' 1 5 1, loan ''Z'' 0 7 0, loan ''Q'' 1 3 1]"

text \<open>Two loans that each accrue exactly 0.025 a month, half way between two cents.\<close>

definition half_cent_scenario :: "loan_dict list" where
  "half_cent_scenario = [loan ''U'' 3 10 0, loan ''V'' 30 1 0]"

text \<open>A loan of principal 1 and a paid-off loan with a negative rate.\<close>

definition negative_rate_scenario :: "loan_dict list" where
  "negative_rate_scenario = [loan ''P'' 1 5 1, loan ''N'' 0 (- 2) 0]"

text \<open>
  A complete dictionary, one without \<^verbatim>\<open>'principal'\<close>, and one without
  \<^verbatim>\<open>'min_payment'\<close> only.
\<close>

definition partial_scenario :: "loan_dict list" where
  "partial_scenario =
     [loan ''A'' 1000 10 20,
      \<lparr> get_name = Some ''B'', get_principal = None, get_rate = Some (Fin 5),
        get_min_payment = Some (Fin 10) \<rparr>,
      \<lparr> get_name = Some ''C'', get_principal = Some (Fin 2000), get_rate = Some (Fin 10),
        get_min_payment = None \<rparr>]"

subsection \<open>Order facts\<close>

lemma fle_refl: "x \<noteq> NaN \<Longrightarrow> fle x x"
  by (cases x) auto

lemma fle_trans: "fle x y \<Longrightarrow> fle y z \<Longrightarrow> fle x z"
  by (cases x; cases y; cases z) auto

lemma fle_antisym: "fle x y \<Longrightarrow> fle y x \<Longrightarrow> x = y"
  by (cases x; cases y) auto

lemma flt_imp_fle: "flt x y \<Longrightarrow> fle x y"
  by (cases x; cases y) auto

lemma flt_imp_neq: "flt x y \<Longrightarrow> x \<noteq> y"
  by (cases x; cases y) auto

lemma not_flt_imp_fle: "x \<noteq> NaN \<Longrightarrow> y \<noteq> NaN \<Longrightarrow> \<not> flt x y \<Longrightarrow> fle y x"
  by (cases x; cases y) auto

lemma not_fle_imp_fle: "x \<noteq> NaN \<Longrightarrow> y \<noteq> NaN \<Longrightarrow> \<not> fle x y \<Longrightarrow> fle y x"
  by (cases x; cases y) auto

lemma flt_fle_trans: "flt x y \<Longrightarrow> fle y z \<Longrightarrow> flt x z"
  by (cases x; cases y; cases z) auto

lemma fle_not_NaN: "fle x y \<Longrightarrow> x \<noteq> NaN \<and> y \<noteq> NaN"
  by (cases x; cases y) auto

subsection \<open>The insertion argsort\<close>

lemma set_insert_by: "set (insert_by before v i ks) = insert i (set ks)"
  by (induction ks) auto

lemma mset_insert_by: "mset (insert_by before v i ks) = add_mset i (mset ks)"
  by (induction ks) auto

lemma mset_fold_insert_by: "mset (fold (insert_by before v) js acc) = mset js + mset acc"
  by (induction js arbitrary: acc) (auto simp: mset_insert_by)

lemma mset_argsort_by: "mset (argsort_by before v) = mset [0..<length v]"
  by (simp add: argsort_by_def mset_fold_insert_by)

lemma sorted_insert_by:
  assumes b1: "\<And>a c. a \<noteq> NaN \<Longrightarrow> c \<noteq> NaN \<Longrightarrow> \<not> before a c \<Longrightarrow> fle c a"
    and b2: "\<And>a c. before a c \<Longrightarrow> fle a c"
    and nn: "\<forall>k \<in> set (i # ks). v ! k \<noteq> NaN"
    and srt: "sorted_wrt (\<lambda>i j. fle (v ! i) (v ! j)) ks"
  shows "sorted_wrt (\<lambda>i j. fle (v ! i) (v ! j)) (insert_by before v i ks)"
  using nn srt
proof (induction ks)
  case Nil
  then show ?case by simp
next
  case (Cons k ks)
  show ?case
  proof (cases "before (v ! i) (v ! k)")
    case True
    then have "fle (v ! i) (v ! k)" by (rule b2)
    with Cons.prems True show ?thesis by (auto intro: fle_trans)
  next
    case False
    with Cons.prems have "fle (v ! k) (v ! i)" by (auto intro: b1)
    with Cons False show ?thesis by (auto simp: set_insert_by)
  qed
qed

lemma sorted_fold_insert_by:
  assumes b1: "\<And>a c. a \<noteq> NaN \<Longrightarrow> c \<noteq> NaN \<Longrightarrow> \<not> before a c \<Longrightarrow> fle c a"
    and b2: "\<And>a c. before a c \<Longrightarrow> fle a c"
  shows "\<forall>k \<in> set js \<union> set acc. v ! k \<noteq> NaN \<Longrightarrow>
         sorted_wrt (\<lambda>i j. fle (v ! i) (v ! j)) acc \<Longrightarrow>
         sorted_wrt (\<lambda>i j. fle (v ! i) (v ! j)) (fold (insert_by before v) js acc)"
proof (induction js arbitrary: acc)
  case Nil
  then show ?case by simp
next
  case (Cons j js)
  have "sorted_wrt (\<lambda>i j. fle (v ! i) (v ! j)) (insert_by before v j acc)"
    using Cons.prems by (intro sorted_insert_by b1 b2) auto
  moreover have "\<forall>k \<in> set js \<union> set (insert_by before v j acc). v ! k \<noteq> NaN"
    using Cons.prems by (auto simp: set_insert_by)
  ultimately show ?case using Cons.IH by simp
qed

lemma sorted_argsort_by:
  assumes b1: "\<And>a c. a \<noteq> NaN \<Longrightarrow> c \<noteq> NaN \<Longrightarrow> \<not> before a c \<Longrightarrow> fle c a"
    and b2: "\<And>a c. before a c \<Longrightarrow> fle a c"
    and nn: "NaN \<notin> set v"
  shows "sorted_wrt (\<lambda>i j. fle (v ! i) (v ! j)) (argsort_by before v)"
proof -
  have "\<forall>k \<in> set [0..<length v] \<union> set []. v ! k \<noteq> NaN"
    using nn by (auto simp: in_set_conv_nth)
  then show ?thesis
    unfolding argsort_by_def by (intro sorted_fold_insert_by b1 b2) auto
qed

lemma stable_argsort_contract: "argsort_contract stable_argsort"
proof -
  have "sorted_wrt (\<lambda>i j. fle (v ! i) (v ! j)) (argsort_by flt v)" if "NaN \<notin> set v" for v
    using that by (rule sorted_argsort_by [rotated 2]) (auto intro: not_flt_imp_fle flt_imp_fle)
  then show ?thesis
    by (simp add: argsort_contract_def stable_argsort_def mset_argsort_by)
qed

text \<open>Stability: positions are inserted in increasing order.\<close>

lemma stable_insert_by:
  assumes nn: "\<forall>k \<in> set (m # ks). v ! k \<noteq> NaN"
    and lt: "\<forall>k \<in> set ks. k < m"
    and srt: "sorted_wrt (\<lambda>i j. fle (v ! i) (v ! j) \<and> (v ! i = v ! j \<longrightarrow> i < j)) ks"
  shows "sorted_wrt (\<lambda>i j. fle (v ! i) (v ! j) \<and> (v ! i = v ! j \<longrightarrow> i < j))
           (insert_by flt v m ks)"
  using nn lt srt
proof (induction ks)
  case Nil
  then show ?case by simp
next
  case (Cons k ks)
  show ?case
  proof (cases "flt (v ! m) (v ! k)")
    case True
    have "flt (v ! m) (v ! j)" if "j \<in> set (k # ks)" for j
      using that True Cons.prems(3) by (auto intro: flt_fle_trans)
    then have "\<forall>j \<in> set (k # ks). fle (v ! m) (v ! j) \<and> v ! m \<noteq> v ! j"
      using flt_imp_fle flt_imp_neq by blast
    with True Cons.prems(3) show ?thesis by auto
  next
    case False
    with Cons.prems have "fle (v ! k) (v ! m)" by (auto intro: not_flt_imp_fle)
    with Cons False show ?thesis by (auto simp: set_insert_by)
  qed
qed

lemma stable_fold_upt:
  assumes nn: "NaN \<notin> set v"
  shows "n \<le> length v \<Longrightarrow>
         sorted_wrt (\<lambda>i j. fle (v ! i) (v ! j) \<and> (v ! i = v ! j \<longrightarrow> i < j))
           (fold (insert_by flt v) [0..<n] [])"
proof (induction n)
  case 0
  then show ?case by simp
next
  case (Suc n)
  let ?acc = "fold (insert_by flt v) [0..<n] []"
  have set_acc: "set ?acc = {0..<n}"
    using mset_fold_insert_by [of flt v "[0..<n]" "[]"]
    by (metis add.right_neutral mset.simps(1) set_mset_mset set_upt)
  have "\<forall>k \<in> set (n # ?acc). v ! k \<noteq> NaN"
    using nn Suc.prems by (auto simp: set_acc in_set_conv_nth)
  moreover have "\<forall>k \<in> set ?acc. k < n" by (simp add: set_acc)
  ultimately have "sorted_wrt (\<lambda>i j. fle (v ! i) (v ! j) \<and> (v ! i = v ! j \<longrightarrow> i < j))
      (insert_by flt v n ?acc)"
    using Suc by (intro stable_insert_by) auto
  then show ?case by simp
qed

lemma stable_argsort_stable: "argsort_stable stable_argsort"
  unfolding argsort_stable_def stable_argsort_def argsort_by_def
proof (intro allI impI)
  fix v :: "np_float list"
  assume "NaN \<notin> set v"
  then have "sorted_wrt (\<lambda>i j. fle (v ! i) (v ! j) \<and> (v ! i = v ! j \<longrightarrow> i < j))
      (fold (insert_by flt v) [0..<length v] [])"
    by (intro stable_fold_upt) auto
  then show "sorted_wrt (\<lambda>i j. v ! i = v ! j \<longrightarrow> i < j) (fold (insert_by flt v) [0..<length v] [])"
    by (rule sorted_wrt_mono_rel [rotated]) auto
qed

subsection \<open>What \<open>nargsort\<close> returns\<close>

lemma nargsort_split:
  assumes c: "argsort_contract argsort"
  shows "\<exists>hd_part. nargsort argsort items =
            hd_part @ filter (\<lambda>i. items ! i = NaN) [0..<length items] \<and>
          mset hd_part = mset (filter (\<lambda>i. items ! i \<noteq> NaN) [0..<length items]) \<and>
          sorted_wrt (\<lambda>i j. fle (items ! j) (items ! i)) hd_part \<and>
          (argsort_stable argsort \<longrightarrow>
             sorted_wrt (\<lambda>i j. items ! i = items ! j \<longrightarrow> i < j) hd_part)"
proof -
  define keep where "keep = filter (\<lambda>i. items ! i \<noteq> NaN) [0..<length items]"
  define pos where "pos = rev keep"
  define vals where "vals = map (\<lambda>i. items ! i) pos"
  define perm where "perm = argsort vals"
  define hd_part where "hd_part = rev (map (\<lambda>k. pos ! k) perm)"
  have no_nan: "NaN \<notin> set vals"
    by (auto simp: vals_def pos_def keep_def)
  have len: "length vals = length pos" by (simp add: vals_def)
  from c no_nan have perm_mset: "mset perm = mset [0..<length pos]"
    and perm_sorted: "sorted_wrt (\<lambda>i j. fle (vals ! i) (vals ! j)) perm"
    unfolding argsort_contract_def perm_def len [symmetric] by blast+
  have perm_set: "set perm = {0..<length pos}"
    using perm_mset by (metis set_mset_mset set_upt)
  have vals_nth: "vals ! k = items ! (pos ! k)" if "k \<in> set perm" for k
    using that perm_set by (simp add: vals_def)
  have eq: "nargsort argsort items =
      hd_part @ filter (\<lambda>i. items ! i = NaN) [0..<length items]"
    by (simp add: nargsort_def Let_def hd_part_def perm_def vals_def pos_def keep_def)
  have "mset (map (\<lambda>k. pos ! k) perm) = mset (map (\<lambda>k. pos ! k) [0..<length pos])"
    using perm_mset by (metis mset_map)
  also have "map (\<lambda>k. pos ! k) [0..<length pos] = pos"
    by (rule map_nth)
  finally have "mset (map (\<lambda>k. pos ! k) perm) = mset keep"
    by (simp add: pos_def)
  then have m: "mset hd_part = mset keep"
    by (simp add: hd_part_def)
  have "sorted_wrt (\<lambda>i j. fle (items ! (pos ! i)) (items ! (pos ! j))) perm"
    using perm_sorted by (rule sorted_wrt_mono_rel [rotated]) (simp add: vals_nth)
  then have s: "sorted_wrt (\<lambda>i j. fle (items ! j) (items ! i)) hd_part"
    by (simp add: hd_part_def sorted_wrt_rev sorted_wrt_map)
  have st: "sorted_wrt (\<lambda>i j. items ! i = items ! j \<longrightarrow> i < j) hd_part"
    if "argsort_stable argsort"
  proof -
    from that no_nan have tie: "sorted_wrt (\<lambda>i j. vals ! i = vals ! j \<longrightarrow> i < j) perm"
      unfolding argsort_stable_def perm_def by blast
    have "sorted_wrt (<) keep"
      unfolding keep_def by (rule sorted_wrt_filter) simp
    then have desc: "pos ! j < pos ! i" if "i < j" "j < length pos" for i j
      using that unfolding pos_def
      by (simp add: rev_nth sorted_wrt_iff_nth_less)
    have rel: "items ! (pos ! j) = items ! (pos ! i) \<longrightarrow> pos ! j < pos ! i"
      if "i \<in> set perm" "j \<in> set perm" "vals ! i = vals ! j \<longrightarrow> i < j" for i j
    proof
      assume "items ! (pos ! j) = items ! (pos ! i)"
      with that have "i < j" by (simp add: vals_nth)
      moreover from that(2) have "j < length pos" by (simp add: perm_set)
      ultimately show "pos ! j < pos ! i" by (rule desc)
    qed
    have "sorted_wrt (\<lambda>i j. items ! (pos ! j) = items ! (pos ! i) \<longrightarrow> pos ! j < pos ! i) perm"
      by (rule sorted_wrt_mono_rel [OF rel tie])
    then show ?thesis
      by (simp add: hd_part_def sorted_wrt_rev sorted_wrt_map)
  qed
  from eq m s st show ?thesis unfolding keep_def by blast
qed

lemma mset_filter_split: "mset (filter P xs) + mset (filter (\<lambda>x. \<not> P x) xs) = mset xs"
  by (induction xs) auto

lemma mset_nargsort:
  assumes "argsort_contract argsort"
  shows "mset (nargsort argsort items) = mset [0..<length items]"
proof -
  from nargsort_split [OF assms, of items] obtain hd_part where
    "nargsort argsort items = hd_part @ filter (\<lambda>i. items ! i = NaN) [0..<length items]"
    "mset hd_part = mset (filter (\<lambda>i. items ! i \<noteq> NaN) [0..<length items])"
    by blast
  then show ?thesis
    using mset_filter_split [of "\<lambda>i. items ! i \<noteq> NaN" "[0..<length items]"]
    by (simp del: mset_upt)
qed

subsection \<open>The frame and its sorted copies\<close>

lemma length_make_frame: "length (make_frame loans) = length loans"
  by (simp add: make_frame_def)

lemma nth_make_frame: "i < length loans \<Longrightarrow> make_frame loans ! i = make_row i (loans ! i)"
  by (simp add: make_frame_def)

lemma label_make_row: "label (make_row i l) = i"
  by (simp add: make_row_def Let_def)

lemma set_make_frame:
  "r \<in> set (make_frame loans) \<longleftrightarrow> (\<exists>i < length loans. r = make_row i (loans ! i))"
  by (auto simp: make_frame_def)

lemma map_label_make_frame: "map label (make_frame loans) = [0..<length loans]"
  by (simp add: make_frame_def label_make_row cong: map_cong)

lemma mset_sort_values:
  assumes "argsort_contract argsort"
  shows "mset (sort_values argsort col df) = mset df"
proof -
  have "mset (nargsort argsort (map col df)) = mset [0..<length df]"
    using mset_nargsort [OF assms, of "map col df"] by simp
  then have "mset (map (\<lambda>i. df ! i) (nargsort argsort (map col df))) =
      mset (map (\<lambda>i. df ! i) [0..<length df])"
    by (metis mset_map)
  then show ?thesis by (simp add: sort_values_def map_nth)
qed

text \<open>
  A sorted frame is the rows with a non-NaN key, in descending key order, followed by
  the rows with a NaN key, in input order.
\<close>

lemma sort_values_split:
  assumes c: "argsort_contract argsort"
  shows "\<exists>hd_part tl_part.
      sort_values argsort col (make_frame loans) = hd_part @ tl_part \<and>
      (\<forall>r \<in> set hd_part. col r \<noteq> NaN) \<and>
      (\<forall>r \<in> set tl_part. col r = NaN) \<and>
      sorted_wrt (\<lambda>a b. fle (col b) (col a)) hd_part \<and>
      sorted_wrt (\<lambda>a b. label a < label b) tl_part \<and>
      (argsort_stable argsort \<longrightarrow>
         sorted_wrt (\<lambda>a b. col a = col b \<longrightarrow> label a < label b) hd_part)"
proof -
  define df where "df = make_frame loans"
  define items where "items = map col df"
  define nans where "nans = filter (\<lambda>i. items ! i = NaN) [0..<length items]"
  from nargsort_split [OF c, of items] obtain hp where
    eq: "nargsort argsort items = hp @ nans"
    and m: "mset hp = mset (filter (\<lambda>i. items ! i \<noteq> NaN) [0..<length items])"
    and s: "sorted_wrt (\<lambda>i j. fle (items ! j) (items ! i)) hp"
    and st: "argsort_stable argsort \<longrightarrow> sorted_wrt (\<lambda>i j. items ! i = items ! j \<longrightarrow> i < j) hp"
    unfolding nans_def by blast
  have len: "length items = length df" by (simp add: items_def)
  have "set hp = set (filter (\<lambda>i. items ! i \<noteq> NaN) [0..<length items])"
    using m by (metis set_mset_mset)
  then have hp_set: "i < length df \<and> items ! i \<noteq> NaN" if "i \<in> set hp" for i
    using that unfolding len by simp
  have nans_set: "i < length df \<and> items ! i = NaN" if "i \<in> set nans" for i
    using that unfolding nans_def len by simp
  have item: "items ! i = col (df ! i)" if "i < length df" for i
    using that by (simp add: items_def)
  have lab: "label (df ! i) = i" if "i < length df" for i
    using that by (simp add: df_def length_make_frame nth_make_frame label_make_row)
  let ?H = "map (\<lambda>i. df ! i) hp" and ?T = "map (\<lambda>i. df ! i) nans"
  have 1: "sort_values argsort col (make_frame loans) = ?H @ ?T"
    by (simp add: sort_values_def eq flip: df_def items_def)
  have 2: "\<forall>r \<in> set ?H. col r \<noteq> NaN"
  proof
    fix r assume "r \<in> set ?H"
    then obtain i where "i \<in> set hp" "r = df ! i" by auto
    with hp_set [of i] item [of i] show "col r \<noteq> NaN" by simp
  qed
  have 3: "\<forall>r \<in> set ?T. col r = NaN"
  proof
    fix r assume "r \<in> set ?T"
    then obtain i where "i \<in> set nans" "r = df ! i" by auto
    with nans_set [of i] item [of i] show "col r = NaN" by simp
  qed
  have "sorted_wrt (\<lambda>i j. fle (col (df ! j)) (col (df ! i))) hp"
    using s by (rule sorted_wrt_mono_rel [rotated]) (simp add: hp_set item)
  then have 4: "sorted_wrt (\<lambda>a b. fle (col b) (col a)) ?H"
    by (simp add: sorted_wrt_map)
  have "sorted_wrt (<) nans"
    unfolding nans_def by (rule sorted_wrt_filter) simp
  then have "sorted_wrt (\<lambda>i j. label (df ! i) < label (df ! j)) nans"
    by (rule sorted_wrt_mono_rel [rotated]) (simp add: nans_set lab)
  then have 5: "sorted_wrt (\<lambda>a b. label a < label b) ?T"
    by (simp add: sorted_wrt_map)
  have 6: "sorted_wrt (\<lambda>a b. col a = col b \<longrightarrow> label a < label b) ?H"
    if "argsort_stable argsort"
  proof -
    from that st have "sorted_wrt (\<lambda>i j. items ! i = items ! j \<longrightarrow> i < j) hp" by simp
    then have "sorted_wrt (\<lambda>i j. col (df ! i) = col (df ! j) \<longrightarrow> label (df ! i) < label (df ! j)) hp"
      by (rule sorted_wrt_mono_rel [rotated]) (simp add: hp_set item lab)
    then show ?thesis by (simp add: sorted_wrt_map)
  qed
  from 1 2 3 4 5 6 show ?thesis by blast
qed

subsection \<open>The first extremal position\<close>

lemma flt_trans_fle: "fle x y \<Longrightarrow> flt y z \<Longrightarrow> flt x z"
  by (cases x; cases y; cases z) auto

text \<open>
  \<open>le a b\<close> reads "\<open>b\<close> is at least as good as \<open>a\<close>" and \<open>better a b\<close> reads "\<open>a\<close> is
  strictly better than \<open>b\<close>"; the scan returns the first best position.
\<close>

lemma arg_scan_first:
  fixes le better :: "np_float \<Rightarrow> np_float \<Rightarrow> bool"
  assumes le_refl: "\<And>x. x \<noteq> NaN \<Longrightarrow> le x x"
    and le_trans: "\<And>x y z. le x y \<Longrightarrow> le y z \<Longrightarrow> le x z"
    and better_le: "\<And>x y. better x y \<Longrightarrow> le y x"
    and le_better: "\<And>x y z. le y z \<Longrightarrow> better x z \<Longrightarrow> better x y"
    and not_better: "\<And>x y. x \<noteq> NaN \<Longrightarrow> y \<noteq> NaN \<Longrightarrow> \<not> better x y \<Longrightarrow> le x y"
    and nn: "NaN \<notin> set v"
  shows "n = length v - i \<Longrightarrow> i \<le> length v \<Longrightarrow> best < i \<Longrightarrow>
         \<forall>j < i. le (v ! j) (v ! best) \<Longrightarrow> \<forall>j < best. better (v ! best) (v ! j) \<Longrightarrow>
         (let r = arg_scan better (drop i v) i best (v ! best)
          in r < length v \<and> (\<forall>j < length v. le (v ! j) (v ! r)) \<and>
             (\<forall>j < r. better (v ! r) (v ! j)))"
proof (induction n arbitrary: i best)
  case 0
  then have "drop i v = []" by simp
  with 0 show ?case by (simp add: Let_def)
next
  case (Suc n)
  then have i: "i < length v" by simp
  then have d: "drop i v = v ! i # drop (Suc i) v"
    by (simp add: Cons_nth_drop_Suc)
  have nn': "v ! k \<noteq> NaN" if "k < length v" for k
    using nn that by (metis nth_mem)
  show ?case
  proof (cases "better (v ! i) (v ! best)")
    case True
    have a: "\<forall>j < Suc i. le (v ! j) (v ! i)"
    proof (intro allI impI)
      fix j assume "j < Suc i"
      then consider "j < i" | "j = i" by linarith
      then show "le (v ! j) (v ! i)"
      proof cases
        case 1
        with Suc.prems have "le (v ! j) (v ! best)" by simp
        moreover have "le (v ! best) (v ! i)" using True by (rule better_le)
        ultimately show ?thesis by (rule le_trans)
      next
        case 2
        with i show ?thesis by (simp add: le_refl nn')
      qed
    qed
    have b: "\<forall>j < i. better (v ! i) (v ! j)"
      using Suc.prems True le_better by blast
    have "n = length v - Suc i" using Suc.prems by simp
    from Suc.IH [OF this _ _ a b] i True show ?thesis
      by (simp add: d)
  next
    case False
    have "best < length v" using Suc.prems i by simp
    with False i have "le (v ! i) (v ! best)"
      by (intro not_better nn') 
    with Suc.prems have a: "\<forall>j < Suc i. le (v ! j) (v ! best)"
      by (simp add: less_Suc_eq)
    have "n = length v - Suc i" using Suc.prems by simp
    from Suc.IH [OF this _ _ a] Suc.prems i False show ?thesis
      by (simp add: d)
  qed
qed

lemma argmax_first:
  assumes "v \<noteq> []" "NaN \<notin> set v"
  shows "argmax v < length v \<and> (\<forall>j < length v. fle (v ! j) (v ! argmax v)) \<and>
         (\<forall>j < argmax v. flt (v ! j) (v ! argmax v))"
proof -
  from assms obtain x xs where v: "v = x # xs" by (cases v) auto
  have "x \<noteq> NaN" using assms v by auto
  have "let r = arg_scan (\<lambda>a b. flt b a) (drop 1 v) 1 0 (v ! 0)
        in r < length v \<and> (\<forall>j < length v. fle (v ! j) (v ! r)) \<and>
           (\<forall>j < r. flt (v ! j) (v ! r))"
  proof (rule arg_scan_first [where le = fle and better = "\<lambda>a b. flt b a" and n = "length v - 1"])
    show "\<forall>j<1. fle (v ! j) (v ! 0)" using \<open>x \<noteq> NaN\<close> v by (simp add: fle_refl)
  qed (use assms v in \<open>auto intro: fle_refl fle_trans flt_imp_fle flt_trans_fle not_flt_imp_fle\<close>)
  then show ?thesis by (simp add: argmax_def v Let_def)
qed

lemma argmin_first:
  assumes "v \<noteq> []" "NaN \<notin> set v"
  shows "argmin v < length v \<and> (\<forall>j < length v. fle (v ! argmin v) (v ! j)) \<and>
         (\<forall>j < argmin v. flt (v ! argmin v) (v ! j))"
proof -
  from assms obtain x xs where v: "v = x # xs" by (cases v) auto
  have "x \<noteq> NaN" using assms v by auto
  have "let r = arg_scan (\<lambda>a b. flt a b) (drop 1 v) 1 0 (v ! 0)
        in r < length v \<and> (\<forall>j < length v. fle (v ! r) (v ! j)) \<and>
           (\<forall>j < r. flt (v ! r) (v ! j))"
  proof (rule arg_scan_first [where le = "\<lambda>a b. fle b a" and better = "\<lambda>a b. flt a b" and n = "length v - 1"])
    show "\<forall>j<1. fle (v ! 0) (v ! j)" using \<open>x \<noteq> NaN\<close> v by (simp add: fle_refl)
  qed (use assms v in \<open>auto intro: fle_refl fle_trans flt_imp_fle flt_fle_trans not_flt_imp_fle\<close>)
  then show ?thesis by (simp add: argmin_def v Let_def)
qed

subsection \<open>When the analysis returns, and what\<close>

lemma analyze_Inr:
  assumes "analyze_loan_payoff_strategy argsort loans = Inr rep"
  shows "avalanche_method (strategies rep) = sort_values argsort avalanche_score (make_frame loans)"
    and "snowball_method (strategies rep) = sort_values argsort snowball_score (make_frame loans)"
    and "balanced_method (strategies rep) = sort_values argsort balanced_score (make_frame loans)"
    and "total_debt (summary rep) = nansum (map principal (make_frame loans))"
    and "total_monthly_interest (summary rep) = nansum (map monthly_interest (make_frame loans))"
  using assms
  by (auto simp: analyze_loan_payoff_strategy_def Let_def split: if_splits sum.splits)

lemma complete_loanD:
  assumes "complete_loan l"
  obtains n p q where "get_name l = Some n" "get_principal l = Some (Fin p)"
    "get_rate l = Some (Fin q)"
proof -
  from assms obtain n where "get_name l = Some n"
    by (auto simp: complete_loan_def)
  moreover from assms obtain p where "get_principal l = Some (Fin p)"
    by (cases "get_principal l"; cases "cell (get_principal l)") (auto simp: complete_loan_def cell_def)
  moreover from assms obtain q where "get_rate l = Some (Fin q)"
    by (cases "get_rate l"; cases "cell (get_rate l)") (auto simp: complete_loan_def cell_def)
  ultimately show ?thesis using that by blast
qed

text \<open>The row of a complete dictionary with principal \<open>p\<close> and rate \<open>q\<close>.\<close>

lemma make_row_complete:
  assumes "get_principal l = Some (Fin p)" "get_rate l = Some (Fin q)"
  shows "principal (make_row i l) = Fin p"
    and "rate (make_row i l) = Fin q"
    and "name (make_row i l) = get_name l"
    and "monthly_interest (make_row i l) = Fin (round2 (interest64 p q))"
    and "avalanche_score (make_row i l) = Fin q"
    and "snowball_score (make_row i l) = Fin (- p)"
    and "balanced_score (make_row i l) = fmul (Fin q) (flog (Fin p))"
    and "interest_principal_ratio (make_row i l) = fdiv (Fin (q / 100)) (Fin p)"
  using assms by (simp_all add: make_row_def cell_def Let_def interest64_def)

lemma complete_columns:
  assumes "\<forall>l \<in> set loans. complete_loan l"
  shows "NaN \<notin> set (map rate (make_frame loans))"
    and "NaN \<notin> set (map principal (make_frame loans))"
    and "NaN \<notin> set (map monthly_interest (make_frame loans))"
proof -
  have "rate r \<noteq> NaN \<and> principal r \<noteq> NaN \<and> monthly_interest r \<noteq> NaN"
    if "r \<in> set (make_frame loans)" for r
  proof -
    from that obtain i where i: "i < length loans" "r = make_row i (loans ! i)"
      by (auto simp: set_make_frame)
    then have "complete_loan (loans ! i)" using assms by simp
    then obtain n p q where "get_principal (loans ! i) = Some (Fin p)"
      "get_rate (loans ! i) = Some (Fin q)" by (rule complete_loanD)
    then show ?thesis using i by (simp add: make_row_complete)
  qed
  then have *: "\<forall>r \<in> set (make_frame loans).
      rate r \<noteq> NaN \<and> principal r \<noteq> NaN \<and> monthly_interest r \<noteq> NaN"
    by blast
  show "NaN \<notin> set (map rate (make_frame loans))"
    using * by (metis (no_types, lifting) imageE list.set_map)
  show "NaN \<notin> set (map principal (make_frame loans))"
    using * by (metis (no_types, lifting) imageE list.set_map)
  show "NaN \<notin> set (map monthly_interest (make_frame loans))"
    using * by (metis (no_types, lifting) imageE list.set_map)
qed

lemma keep_all: "NaN \<notin> set v \<Longrightarrow> filter (\<lambda>i. v ! i \<noteq> NaN) [0..<length v] = [0..<length v]"
  by (simp add: filter_id_conv in_set_conv_nth)

lemma keep_none:
  "filter (\<lambda>i. v ! i \<noteq> NaN) [0..<length v] = [] \<longleftrightarrow> list_all (\<lambda>x. x = NaN) v"
  by (auto simp: filter_empty_conv list_all_iff in_set_conv_nth) (metis nth_mem)

lemma idxmax_no_nan:
  assumes "v \<noteq> []" "NaN \<notin> set v"
  shows "idxmax v = Inr (argmax v)"
proof -
  from argmax_first [OF assms] have "argmax v < length v" by simp
  then show ?thesis
    using assms(1) by (simp add: idxmax_def keep_all [OF assms(2)] map_nth)
qed

lemma idxmin_no_nan:
  assumes "v \<noteq> []" "NaN \<notin> set v"
  shows "idxmin v = Inr (argmin v)"
proof -
  from argmin_first [OF assms] have "argmin v < length v" by simp
  then show ?thesis
    using assms(1) by (simp add: idxmin_def keep_all [OF assms(2)] map_nth)
qed

lemma has_column_complete:
  assumes "loans \<noteq> []" "\<forall>l \<in> set loans. complete_loan l"
  shows "has_column get_name loans" "has_column get_principal loans" "has_column get_rate loans"
proof -
  from assms obtain l where l: "l \<in> set loans" "complete_loan l"
    by (cases loans) auto
  from l(2) obtain n p q where "get_name l = Some n" "get_principal l = Some (Fin p)"
    "get_rate l = Some (Fin q)" by (rule complete_loanD)
  with l(1) show "has_column get_name loans" "has_column get_principal loans"
    "has_column get_rate loans"
    by (auto simp: has_column_def list_ex_iff)
qed

lemma analyze_complete:
  assumes ne: "loans \<noteq> []" and c: "\<forall>l \<in> set loans. complete_loan l"
  shows "\<exists>rep. analyze_loan_payoff_strategy argsort loans = Inr rep \<and>
     highest_interest_loan (summary rep) =
       name (make_frame loans ! argmax (map rate (make_frame loans))) \<and>
     smallest_balance_loan (summary rep) =
       name (make_frame loans ! argmin (map principal (make_frame loans))) \<and>
     most_expensive_loan (summary rep) =
       name (make_frame loans ! argmax (map monthly_interest (make_frame loans)))"
proof -
  have df: "make_frame loans \<noteq> []"
    using ne by (metis length_make_frame length_0_conv)
  note cols = complete_columns [OF c]
  have 1: "idxmax (map rate (make_frame loans)) =
      Inr (argmax (map rate (make_frame loans)))"
    using df cols(1) by (intro idxmax_no_nan) auto
  have 2: "idxmin (map principal (make_frame loans)) =
      Inr (argmin (map principal (make_frame loans)))"
    using df cols(2) by (intro idxmin_no_nan) auto
  have 3: "idxmax (map monthly_interest (make_frame loans)) =
      Inr (argmax (map monthly_interest (make_frame loans)))"
    using df cols(3) by (intro idxmax_no_nan) auto
  show ?thesis
    using has_column_complete [OF ne c]
    by (simp add: analyze_loan_payoff_strategy_def Let_def 1 2 3 lookup_name_def loc_name_def)
qed

subsection \<open>Example inputs are complete\<close>

lemma complete_loan_loan: "complete_loan (loan n p q m)"
  by (simp add: complete_loan_def loan_def cell_def)

lemma scenario_complete: "scenario \<noteq> [] \<and> (\<forall>l \<in> set scenario. complete_loan l)"
  by (simp add: scenario_def complete_loan_loan)

lemma paid_off_scenario_complete:
  "paid_off_scenario \<noteq> [] \<and> (\<forall>l \<in> set paid_off_scenario. complete_loan l)"
  by (simp add: paid_off_scenario_def complete_loan_loan)

lemma half_cent_scenario_complete:
  "half_cent_scenario \<noteq> [] \<and> (\<forall>l \<in> set half_cent_scenario. complete_loan l)"
  by (simp add: half_cent_scenario_def complete_loan_loan)

lemma negative_rate_scenario_complete:
  "negative_rate_scenario \<noteq> [] \<and> (\<forall>l \<in> set negative_rate_scenario. complete_loan l)"
  by (simp add: negative_rate_scenario_def complete_loan_loan)

lemma map_name_make_frame: "map name (make_frame loans) = map get_name loans"
  by (rule nth_equalityI) (simp_all add: make_frame_def make_row_def Let_def)

subsection \<open>Rounding to an integer and to a float64\<close>

lemma rint_nearest_even:
  "\<exists>k::int. rint x = of_int k \<and> \<bar>of_int k - x\<bar> \<le> 1 / 2 \<and>
     (\<bar>of_int k - x\<bar> = 1 / 2 \<longrightarrow> even k)"
proof -
  define f where "f = \<lfloor>x\<rfloor>"
  define d where "d = x - of_int f"
  have d: "0 \<le> d" "d < 1" unfolding d_def f_def by linarith+
  have x: "x = of_int f + d" by (simp add: d_def)
  consider "d < 1 / 2" | "1 / 2 < d" | "d = 1 / 2" "even f" | "d = 1 / 2" "odd f"
    by fastforce
  then show ?thesis
  proof cases
    case 1
    then have "rint x = of_int f" by (simp add: rint_def Let_def f_def d_def)
    moreover have "\<bar>of_int f - x\<bar> < 1 / 2" using 1 d x by simp
    ultimately show ?thesis by (intro exI [of _ f]) simp
  next
    case 2
    then have "rint x = of_int (f + 1)" by (simp add: rint_def Let_def f_def d_def)
    moreover have "\<bar>of_int (f + 1) - x\<bar> < 1 / 2" using 2 d x by simp
    ultimately show ?thesis by (intro exI [of _ "f + 1"]) simp
  next
    case 3
    then have "rint x = of_int f" by (simp add: rint_def Let_def f_def d_def)
    moreover have "\<bar>of_int f - x\<bar> = 1 / 2" using 3 x by simp
    ultimately show ?thesis using 3 by (intro exI [of _ f]) simp
  next
    case 4
    then have "rint x = of_int (f + 1)" by (simp add: rint_def Let_def f_def d_def)
    moreover have "\<bar>of_int (f + 1) - x\<bar> = 1 / 2" using 4 x by simp
    ultimately show ?thesis using 4 by (intro exI [of _ "f + 1"]) simp
  qed
qed

lemma rint_error: "\<bar>rint x - x\<bar> \<le> 1 / 2"
  using rint_nearest_even [of x] by auto

text \<open>The relative error of one float64 rounding is at most \<open>2 ^ -53\<close>.\<close>

lemma fl_error: "\<bar>fl x - x\<bar> \<le> \<bar>x\<bar> / 2 ^ 53"
proof (cases "x = 0")
  case True
  then show ?thesis by (simp add: fl_def)
next
  case False
  define e where "e = \<lfloor>log 2 \<bar>x\<bar>\<rfloor>"
  define u :: real where "u = 2 powr (of_int e - 52)"
  have u: "0 < u" by (simp add: u_def)
  have "of_int e \<le> log 2 \<bar>x\<bar>" by (simp add: e_def)
  then have "2 powr of_int e \<le> \<bar>x\<bar>"
    using False by (simp add: le_log_iff)
  moreover have "u / 2 = 2 powr of_int e / 2 ^ 53"
    by (simp add: u_def powr_diff)
  ultimately have half: "u / 2 \<le> \<bar>x\<bar> / 2 ^ 53"
    by (simp add: divide_right_mono)
  have "fl x = rint (x / u) * u"
    using False by (simp add: fl_def e_def u_def)
  then have "fl x - x = (rint (x / u) - x / u) * u"
    using u by (simp add: field_simps)
  then have "\<bar>fl x - x\<bar> = \<bar>rint (x / u) - x / u\<bar> * u"
    using u by (simp add: abs_mult)
  also have "\<dots> \<le> 1 / 2 * u"
    using rint_error [of "x / u"] u by (intro mult_right_mono) simp_all
  finally show ?thesis using half by simp
qed

text \<open>Evaluating \<open>fl\<close> at a positive number between two powers of 2.\<close>

lemma fl_between:
  assumes "0 < x" "2 powr of_int e \<le> x" "x < 2 powr (of_int e + 1)"
  shows "fl x = rint (x / 2 powr (of_int e - 52)) * 2 powr (of_int e - 52)"
proof -
  have "\<lfloor>log 2 \<bar>x\<bar>\<rfloor> = e"
  proof (rule floor_unique)
    show "of_int e \<le> log 2 \<bar>x\<bar>" using assms by (simp add: le_log_iff)
    show "log 2 \<bar>x\<bar> < of_int e + 1" using assms by (simp add: log_less_iff)
  qed
  with assms(1) show ?thesis by (simp add: fl_def)
qed

lemma fl_ge1:
  assumes "2 ^ n \<le> x" "x < 2 * 2 ^ n" "n \<le> 52"
  shows "fl x = rint (x * 2 ^ (52 - n)) / 2 ^ (52 - n)"
proof -
  have x: "0 < x" using assms(1) by (smt (verit) zero_less_power)
  have "fl x = rint (x / 2 powr (of_int (int n) - 52)) * 2 powr (of_int (int n) - 52)"
    using x assms(1,2) by (intro fl_between) (simp_all add: powr_add powr_realpow)
  moreover have "2 powr (of_int (int n) - 52) = 1 / (2::real) ^ (52 - n)"
  proof -
    have "(2::real) powr (of_int (int n) - 52) = 2 powr (- real (52 - n))"
      using assms(3) by (simp add: of_nat_diff)
    then show ?thesis by (simp add: powr_minus powr_realpow field_simps)
  qed
  ultimately show ?thesis by simp
qed

lemma fl_lt1:
  assumes "1 \<le> x * 2 ^ n" "x * 2 ^ n < 2"
  shows "fl x = rint (x * 2 ^ (52 + n)) / 2 ^ (52 + n)"
proof -
  have x: "0 < x" using assms(1) by (smt (verit) mult_le_0_iff zero_less_power)
  have p: "(2::real) powr (- real n) = 1 / 2 ^ n"
    by (simp add: powr_minus powr_realpow field_simps)
  have "fl x = rint (x / 2 powr (of_int (- int n) - 52)) * 2 powr (of_int (- int n) - 52)"
  proof (rule fl_between [OF x])
    show "2 powr of_int (- int n) \<le> x"
      using assms(1) by (simp add: p field_simps)
    have "(2::real) powr (of_int (- int n) + 1) = 2 / 2 ^ n"
      by (simp add: powr_diff powr_realpow)
    moreover have "x < 2 / 2 ^ n"
      using assms(2) by (simp add: field_simps)
    ultimately show "x < 2 powr (of_int (- int n) + 1)"
      by (simp only:)
  qed
  moreover have "(2::real) powr (of_int (- int n) - 52) = 1 / 2 ^ (52 + n)"
  proof -
    have e: "(of_int (- int n) - 52 :: real) = - real (52 + n)" by simp
    have "(2::real) powr (- real (52 + n)) = inverse (2 powr real (52 + n))"
      by (rule powr_minus)
    also have "\<dots> = inverse (2 ^ (52 + n))"
      by (subst powr_realpow) simp_all
    finally show ?thesis by (simp only: e inverse_eq_divide)
  qed
  ultimately show ?thesis by simp
qed

lemma fl_0: "fl 0 = 0"
  by (simp add: fl_def)

subsection \<open>The monthly interest of the example loans\<close>

lemma interest_U: "round2 (interest64 3 10) = fl (3 / 100)"
proof -
  have a: "fl (10 / 100) = (3602879701896397 / 36028797018963968)"
    by (subst fl_lt1 [where n = 4]) (simp_all add: rint_def)
  have b: "fl (3 * (3602879701896397 / 36028797018963968)) = (1351079888211149 / 4503599627370496)"
    by (subst fl_lt1 [where n = 2]) (simp_all add: rint_def)
  have c: "fl ((1351079888211149 / 4503599627370496) / 12) = (7205759403792795 / 288230376151711744)"
    by (subst fl_lt1 [where n = 6]) (simp_all add: rint_def)
  have d: "fl ((7205759403792795 / 288230376151711744) * 100) = (5629499534213121 / 2251799813685248)"
    by (subst fl_ge1 [where n = 1]) (simp_all add: rint_def)
  have e: "rint (5629499534213121 / 2251799813685248) = 3"
    by (simp add: rint_def)
  show ?thesis
    by (simp only: round2_def interest64_def a b c d e)
qed

lemma fl_cents_3: "fl (3 / 100) = (1080863910568919 / 36028797018963968)"
    by (subst fl_lt1 [where n = 6]) (simp_all add: rint_def)

lemma interest_V: "round2 (interest64 30 1) = fl (2 / 100)"
proof -
  have a: "fl (1 / 100) = (5764607523034235 / 576460752303423488)"
    by (subst fl_lt1 [where n = 7]) (simp_all add: rint_def)
  have b: "fl (30 * (5764607523034235 / 576460752303423488)) = (5404319552844595 / 18014398509481984)"
    by (subst fl_lt1 [where n = 2]) (simp_all add: rint_def)
  have c: "fl ((5404319552844595 / 18014398509481984) / 12) = (7205759403792793 / 288230376151711744)"
    by (subst fl_lt1 [where n = 6]) (simp_all add: rint_def)
  have d: "fl ((7205759403792793 / 288230376151711744) * 100) = (5 / 2)"
    by (subst fl_ge1 [where n = 1]) (simp_all add: rint_def)
  have e: "rint (5 / 2) = 2"
    by (simp add: rint_def)
  show ?thesis
    by (simp only: round2_def interest64_def a b c d e)
qed

lemma fl_cents_2: "fl (2 / 100) = (5764607523034235 / 288230376151711744)"
    by (subst fl_lt1 [where n = 6]) (simp_all add: rint_def)

lemma interest_A: "round2 (interest64 1000 10) = fl (833 / 100)"
proof -
  have a: "fl (10 / 100) = (3602879701896397 / 36028797018963968)"
    by (subst fl_lt1 [where n = 4]) (simp_all add: rint_def)
  have b: "fl (1000 * (3602879701896397 / 36028797018963968)) = 100"
    by (subst fl_ge1 [where n = 6]) (simp_all add: rint_def)
  have c: "fl (100 / 12) = (4691249611844267 / 562949953421312)"
    by (subst fl_ge1 [where n = 3]) (simp_all add: rint_def)
  have d: "fl ((4691249611844267 / 562949953421312) * 100) = (7330077518506667 / 8796093022208)"
    by (subst fl_ge1 [where n = 9]) (simp_all add: rint_def)
  have e: "rint (7330077518506667 / 8796093022208) = 833"
    by (simp add: rint_def)
  show ?thesis
    by (simp only: round2_def interest64_def a b c d e)
qed

lemma fl_cents_833: "fl (833 / 100) = (4689373111999529 / 562949953421312)"
    by (subst fl_ge1 [where n = 3]) (simp_all add: rint_def)

lemma interest_B: "round2 (interest64 500 5) = fl (208 / 100)"
proof -
  have a: "fl (5 / 100) = (3602879701896397 / 72057594037927936)"
    by (subst fl_lt1 [where n = 5]) (simp_all add: rint_def)
  have b: "fl (500 * (3602879701896397 / 72057594037927936)) = 25"
    by (subst fl_ge1 [where n = 4]) (simp_all add: rint_def)
  have c: "fl (25 / 12) = (4691249611844267 / 2251799813685248)"
    by (subst fl_ge1 [where n = 1]) (simp_all add: rint_def)
  have d: "fl ((4691249611844267 / 2251799813685248) * 100) = (7330077518506667 / 35184372088832)"
    by (subst fl_ge1 [where n = 7]) (simp_all add: rint_def)
  have e: "rint (7330077518506667 / 35184372088832) = 208"
    by (simp add: rint_def)
  show ?thesis
    by (simp only: round2_def interest64_def a b c d e)
qed

lemma fl_cents_208: "fl (208 / 100) = (1170935903116329 / 562949953421312)"
    by (subst fl_ge1 [where n = 1]) (simp_all add: rint_def)

lemma interest_C: "round2 (interest64 2000 10) = fl (1667 / 100)"
proof -
  have a: "fl (10 / 100) = (3602879701896397 / 36028797018963968)"
    by (subst fl_lt1 [where n = 4]) (simp_all add: rint_def)
  have b: "fl (2000 * (3602879701896397 / 36028797018963968)) = 200"
    by (subst fl_ge1 [where n = 7]) (simp_all add: rint_def)
  have c: "fl (200 / 12) = (4691249611844267 / 281474976710656)"
    by (subst fl_ge1 [where n = 4]) (simp_all add: rint_def)
  have d: "fl ((4691249611844267 / 281474976710656) * 100) = (7330077518506667 / 4398046511104)"
    by (subst fl_ge1 [where n = 10]) (simp_all add: rint_def)
  have e: "rint (7330077518506667 / 4398046511104) = 1667"
    by (simp add: rint_def)
  show ?thesis
    by (simp only: round2_def interest64_def a b c d e)
qed

lemma fl_cents_1667: "fl (1667 / 100) = (1173046965441659 / 70368744177664)"
    by (subst fl_ge1 [where n = 4]) (simp_all add: rint_def)

section \<open>The claims\<close>

subsection \<open>C3: every ranking is a permutation of the input\<close>

text \<open>
  C3. Whenever the analysis returns, each of the three rankings holds the rows of the
  input exactly once each: the multiset of labels is that of the input positions, the
  multiset of names is that of the input names, and the three rankings hold the same
  multiset of rows.
\<close>

theorem rankings_are_permutations:
  assumes "argsort_contract argsort"
    and "analyze_loan_payoff_strategy argsort loans = Inr rep"
  shows "mset (map name (avalanche_method (strategies rep))) = mset (map get_name loans) \<and>
         mset (map name (snowball_method (strategies rep))) = mset (map get_name loans) \<and>
         mset (map name (balanced_method (strategies rep))) = mset (map get_name loans) \<and>
         mset (map label (avalanche_method (strategies rep))) = mset [0..<length loans] \<and>
         mset (map label (snowball_method (strategies rep))) = mset [0..<length loans] \<and>
         mset (map label (balanced_method (strategies rep))) = mset [0..<length loans] \<and>
         mset (avalanche_method (strategies rep)) = mset (snowball_method (strategies rep)) \<and>
         mset (snowball_method (strategies rep)) = mset (balanced_method (strategies rep))"
proof -
  have m: "mset (sort_values argsort col (make_frame loans)) = mset (make_frame loans)" for col
    using assms(1) by (rule mset_sort_values)
  have n: "mset (map name (sort_values argsort col (make_frame loans))) = mset (map get_name loans)"
    for col
    using m [of col] by (metis mset_map map_name_make_frame)
  have l: "mset (map label (sort_values argsort col (make_frame loans))) = mset [0..<length loans]"
    for col
    using m [of col] by (metis mset_map map_label_make_frame)
  show ?thesis
    unfolding analyze_Inr [OF assms(2)] using m n l by simp
qed

theorem rankings_are_permutations_witness:
  "argsort_contract stable_argsort \<and>
   (\<exists>rep. analyze_loan_payoff_strategy stable_argsort scenario = Inr rep \<and>
      mset (map name (avalanche_method (strategies rep))) = {#Some ''A'', Some ''B'', Some ''C''#} \<and>
      mset (map label (balanced_method (strategies rep))) = {#0, 1, 2#})"
proof -
  from analyze_complete [of scenario stable_argsort] scenario_complete
  obtain rep where rep: "analyze_loan_payoff_strategy stable_argsort scenario = Inr rep"
    by blast
  from rankings_are_permutations [OF stable_argsort_contract rep]
  have "mset (map name (avalanche_method (strategies rep))) = mset (map get_name scenario)"
    and "mset (map label (balanced_method (strategies rep))) = mset [0..<length scenario]"
    by blast+
  then have "mset (map name (avalanche_method (strategies rep))) = {#Some ''A'', Some ''B'', Some ''C''#}"
    and "mset (map label (balanced_method (strategies rep))) = {#0, 1, 2#}"
    by (simp_all add: scenario_def loan_def upt_rec del: mset_upt)
  with rep stable_argsort_contract show ?thesis by blast
qed

subsection \<open>C4: the empty input\<close>

text \<open>
  C4, as the code has it. On the empty list the function fails, and returns no report;
  the failure is the KeyError of its first column lookup, \<^verbatim>\<open>df['principal']\<close> on line 21
  (the empty frame has no columns), whichever argsort the library runs. The function has
  no check of its input and no error of its own.
\<close>

theorem empty_input_key_error:
  "analyze_loan_payoff_strategy argsort [] = Inl (KeyError ''principal'')"
  by (simp add: analyze_loan_payoff_strategy_def has_column_def)

text \<open>
  C4 as stated asks for a "no loans to analyze" error instead of a failing lookup: the
  error on the empty list is the failing lookup of \<^verbatim>\<open>'principal'\<close>.
\<close>

theorem empty_input_counterexample:
  "analyze_loan_payoff_strategy stable_argsort [] = Inl (KeyError ''principal'') \<and>
   analyze_loan_payoff_strategy stable_argsort [] \<noteq> Inl (KeyError ''no loans to analyze'')"
  by (simp add: analyze_loan_payoff_strategy_def has_column_def)

subsection \<open>Order of a sorted frame\<close>

lemma set_sort_values:
  "argsort_contract argsort \<Longrightarrow> set (sort_values argsort col df) = set df"
  by (metis mset_sort_values set_mset_mset)

lemma keeps_input_order_sort_values:
  assumes "argsort_contract argsort" "argsort_stable argsort"
  shows "keeps_input_order col (sort_values argsort col (make_frame loans))"
proof -
  from sort_values_split [OF assms(1), of col loans] assms(2) obtain H T where
    eq: "sort_values argsort col (make_frame loans) = H @ T"
    and H: "\<forall>r \<in> set H. col r \<noteq> NaN" and T: "\<forall>r \<in> set T. col r = NaN"
    and sT: "sorted_wrt (\<lambda>a b. label a < label b) T"
    and sH: "sorted_wrt (\<lambda>a b. col a = col b \<longrightarrow> label a < label b) H"
    by blast
  from sT have "sorted_wrt (\<lambda>a b. col a = col b \<longrightarrow> label a < label b) T"
    by (rule sorted_wrt_mono_rel [rotated]) simp
  with sH H T show ?thesis
    unfolding keeps_input_order_def eq by (auto simp: sorted_wrt_append)
qed

lemma nan_rows_keep_input_order:
  assumes "argsort_contract argsort"
  shows "keeps_input_order col
           (filter (\<lambda>r. col r = NaN) (sort_values argsort col (make_frame loans)))"
proof -
  from sort_values_split [OF assms(1), of col loans] obtain H T where
    eq: "sort_values argsort col (make_frame loans) = H @ T"
    and H: "\<forall>r \<in> set H. col r \<noteq> NaN" and T: "\<forall>r \<in> set T. col r = NaN"
    and sT: "sorted_wrt (\<lambda>a b. label a < label b) T"
    by blast
  have "filter (\<lambda>r. col r = NaN) H = []" using H by (simp add: filter_empty_conv)
  moreover have "filter (\<lambda>r. col r = NaN) T = T" using T by (simp add: filter_id_conv)
  moreover from sT have "sorted_wrt (\<lambda>a b. col a = col b \<longrightarrow> label a < label b) T"
    by (rule sorted_wrt_mono_rel [rotated]) simp
  ultimately show ?thesis
    unfolding keeps_input_order_def eq by simp
qed



text \<open>The three scores of a row of the frame, in terms of its rate and principal.\<close>

lemma scores_make_frame:
  assumes "r \<in> set (make_frame loans)"
  shows "avalanche_score r = rate r" "snowball_score r = fneg (principal r)"
    "balanced_score r = fmul (rate r) (flog (principal r))"
    "\<exists>i < length loans. r = make_row i (loans ! i)"
  using assms by (auto simp: set_make_frame make_row_def Let_def)


lemma complete_row:
  assumes "\<forall>l \<in> set loans. complete_loan l" "r \<in> set (make_frame loans)"
  obtains i p q where "i < length loans" "r = make_row i (loans ! i)"
    "get_principal (loans ! i) = Some (Fin p)" "get_rate (loans ! i) = Some (Fin q)"
    "principal r = Fin p" "rate r = Fin q"
proof -
  from assms(2) obtain i where i: "i < length loans" "r = make_row i (loans ! i)"
    by (auto simp: set_make_frame)
  with assms(1) have "complete_loan (loans ! i)" by simp
  then obtain n p q where pq: "get_principal (loans ! i) = Some (Fin p)"
    "get_rate (loans ! i) = Some (Fin q)" by (rule complete_loanD)
  with i have "principal r = Fin p" "rate r = Fin q" by (simp_all add: make_row_complete)
  with i pq show ?thesis using that by blast
qed

subsection \<open>C2: each ranking is sorted by its score\<close>


lemma balanced_positive:
  assumes "\<forall>l \<in> set loans. complete_loan l" "r \<in> set (make_frame loans)"
    "flt (Fin 0) (principal r)"
  shows "balanced_score r = Fin (the_real (rate r) * ln (the_real (principal r)))"
proof -
  from assms(1,2) obtain i p q where "principal r = Fin p" "rate r = Fin q"
    by (rule complete_row)
  moreover from assms(2) have "balanced_score r = fmul (rate r) (flog (principal r))"
    by (rule scores_make_frame)
  ultimately show ?thesis using assms(3) by simp
qed



subsection \<open>C10: a paid-off loan in the balanced ranking\<close>

lemma balanced_zero_principal:
  assumes "r \<in> set (make_frame loans)" "principal r = Fin 0"
  shows "flt (Fin 0) (rate r) \<Longrightarrow> balanced_score r = NInf"
    and "rate r = Fin 0 \<Longrightarrow> balanced_score r = NaN"
    and "flt (rate r) (Fin 0) \<Longrightarrow> balanced_score r = PInf"
proof -
  have b: "balanced_score r = fmul (rate r) NInf"
    using scores_make_frame(3) [OF assms(1)] assms(2) by simp
  show "balanced_score r = NInf" if "flt (Fin 0) (rate r)"
    using that b by (cases "rate r") (simp_all add: inf_of_sign_def)
  show "balanced_score r = NaN" if "rate r = Fin 0"
    using that b by (simp add: inf_of_sign_def)
  show "balanced_score r = PInf" if "flt (rate r) (Fin 0)"
    using that b by (cases "rate r") (simp_all add: inf_of_sign_def)
qed

text \<open>
  C10, as the code has it. For complete loans and any argsort that meets numpy's
  contract the analysis returns, and a row with principal 0 has the balanced score minus
  infinity if its rate is positive, NaN if its rate is 0, and plus infinity if its rate
  is negative. If every loan with principal 0 has a rate of 0 or more, no row with
  principal 0 stands before a row with a positive principal in the balanced ranking.
\<close>

theorem zero_principal_ranked_last:
  assumes "argsort_contract argsort"
    and "loans \<noteq> []"
    and "\<forall>l \<in> set loans. complete_loan l"
  shows "\<exists>rep. analyze_loan_payoff_strategy argsort loans = Inr rep \<and>
           (\<forall>r \<in> set (balanced_method (strategies rep)). principal r = Fin 0 \<longrightarrow>
              (flt (Fin 0) (rate r) \<longrightarrow> balanced_score r = NInf) \<and>
              (rate r = Fin 0 \<longrightarrow> balanced_score r = NaN) \<and>
              (flt (rate r) (Fin 0) \<longrightarrow> balanced_score r = PInf)) \<and>
           ((\<forall>l \<in> set loans.
               get_principal l = Some (Fin 0) \<longrightarrow> fle (Fin 0) (cell (get_rate l))) \<longrightarrow>
            zero_after_positive (balanced_method (strategies rep)))"
proof -
  let ?df = "make_frame loans"
  let ?B = "sort_values argsort balanced_score ?df"
  from analyze_complete [OF assms(2,3), of argsort]
  obtain rep where rep: "analyze_loan_payoff_strategy argsort loans = Inr rep" by blast
  have mem: "set ?B = set ?df" using assms(1) by (rule set_sort_values)
  have s: "\<forall>r \<in> set ?B. principal r = Fin 0 \<longrightarrow>
      (flt (Fin 0) (rate r) \<longrightarrow> balanced_score r = NInf) \<and>
      (rate r = Fin 0 \<longrightarrow> balanced_score r = NaN) \<and>
      (flt (rate r) (Fin 0) \<longrightarrow> balanced_score r = PInf)"
    unfolding mem using balanced_zero_principal by blast
  have z: "zero_after_positive ?B"
    if nonneg: "\<forall>l \<in> set loans.
      get_principal l = Some (Fin 0) \<longrightarrow> fle (Fin 0) (cell (get_rate l))"
  proof -
    have pos: "is_finite (balanced_score r)" if "r \<in> set ?df" "flt (Fin 0) (principal r)" for r
      using balanced_positive [OF assms(3) that] by simp
    have zero: "balanced_score r = NInf \<or> balanced_score r = NaN"
      if r: "r \<in> set ?df" and z: "principal r = Fin 0" for r
    proof -
      from assms(3) r obtain i p q where i: "i < length loans" "r = make_row i (loans ! i)"
        "get_principal (loans ! i) = Some (Fin p)" "get_rate (loans ! i) = Some (Fin q)"
        "principal r = Fin p" "rate r = Fin q"
        by (rule complete_row)
      with z have "p = 0" by simp
      moreover have "loans ! i \<in> set loans" using i(1) by simp
      ultimately have "fle (Fin 0) (cell (get_rate (loans ! i)))"
        using i(3) nonneg by blast
      with i have "0 \<le> q" by (simp add: cell_def)
      then consider "0 < q" | "q = 0" by linarith
      then show ?thesis
      proof cases
        case 1
        with i have "flt (Fin 0) (rate r)" by simp
        with balanced_zero_principal(1) [OF r z] show ?thesis by simp
      next
        case 2
        with i have "rate r = Fin 0" by simp
        with balanced_zero_principal(2) [OF r z] show ?thesis by simp
      qed
    qed
    from sort_values_split [OF assms(1), of balanced_score loans] obtain H T where
      eq: "?B = H @ T"
      and H: "\<forall>r \<in> set H. balanced_score r \<noteq> NaN"
      and T: "\<forall>r \<in> set T. balanced_score r = NaN"
      and sH: "sorted_wrt (\<lambda>a b. fle (balanced_score b) (balanced_score a)) H"
      by blast
    have sub: "set H \<subseteq> set ?df" "set T \<subseteq> set ?df"
      using mem unfolding eq by auto
    have notpos: "\<not> flt (Fin 0) (principal b)" if "b \<in> set T" for b
    proof
      assume "flt (Fin 0) (principal b)"
      with that sub have "is_finite (balanced_score b)" by (intro pos) auto
      with T that show False by auto
    qed
    have relH: "\<not> (principal a = Fin 0 \<and> flt (Fin 0) (principal b))"
      if "a \<in> set H" "b \<in> set H" "fle (balanced_score b) (balanced_score a)" for a b
    proof
      assume ab: "principal a = Fin 0 \<and> flt (Fin 0) (principal b)"
      with that sub zero [of a] H have "balanced_score a = NInf" by auto
      moreover from ab that sub have "is_finite (balanced_score b)" by (intro pos) auto
      ultimately show False using that(3) by (cases "balanced_score b") simp_all
    qed
    have "sorted_wrt (\<lambda>a b. \<not> (principal a = Fin 0 \<and> flt (Fin 0) (principal b))) H"
      by (rule sorted_wrt_mono_rel [OF relH sH])
    moreover have "sorted_wrt (\<lambda>a b. \<not> (principal a = Fin 0 \<and> flt (Fin 0) (principal b))) T"
      using notpos by (simp add: sorted_wrt_iff_nth_less)
    ultimately show ?thesis
      unfolding zero_after_positive_def eq using notpos by (simp add: sorted_wrt_append)
  qed
  from rep z s show ?thesis
    by (intro exI [of _ rep]) (simp add: analyze_Inr [OF rep])
qed

lemma paid_off_balanced:
  "map label (sort_values stable_argsort balanced_score (make_frame paid_off_scenario)) = [0, 2, 1]"
  by (simp add: sort_values_def nargsort_def make_frame_def make_row_def paid_off_scenario_def
      loan_def stable_argsort_def argsort_by_def cell_def upt_rec Let_def inf_of_sign_def)

theorem zero_principal_ranked_last_witness:
  "argsort_contract stable_argsort \<and> paid_off_scenario \<noteq> [] \<and>
   list_all complete_loan paid_off_scenario \<and>
   list_all (\<lambda>l. get_principal l = Some (Fin 0) \<longrightarrow> fle (Fin 0) (cell (get_rate l)))
     paid_off_scenario \<and>
   (\<exists>rep. analyze_loan_payoff_strategy stable_argsort paid_off_scenario = Inr rep \<and>
      zero_after_positive (balanced_method (strategies rep)) \<and>
      map label (balanced_method (strategies rep)) = [0, 2, 1])"
proof -
  have h: "\<forall>l \<in> set paid_off_scenario.
      get_principal l = Some (Fin 0) \<longrightarrow> fle (Fin 0) (cell (get_rate l))"
    by (simp add: paid_off_scenario_def loan_def cell_def)
  have c: "\<forall>l \<in> set paid_off_scenario. complete_loan l" and ne: "paid_off_scenario \<noteq> []"
    using paid_off_scenario_complete by simp_all
  from zero_principal_ranked_last [OF stable_argsort_contract ne c] h
  obtain rep where rep: "analyze_loan_payoff_strategy stable_argsort paid_off_scenario = Inr rep"
    and z: "zero_after_positive (balanced_method (strategies rep))"
    by blast
  have "map label (balanced_method (strategies rep)) = [0, 2, 1]"
    by (simp add: analyze_Inr [OF rep] paid_off_balanced)
  with rep z have "\<exists>rep. analyze_loan_payoff_strategy stable_argsort paid_off_scenario = Inr rep \<and>
      zero_after_positive (balanced_method (strategies rep)) \<and>
      map label (balanced_method (strategies rep)) = [0, 2, 1]"
    by (intro exI [of _ rep]) simp
  with stable_argsort_contract ne c h show ?thesis by (simp add: list_all_iff)
qed

text \<open>
  C10 as stated, for every input, fails: in \<open>negative_rate_scenario\<close> the loan N has
  principal 0 and rate -2, its balanced score is plus infinity, and it is ranked before
  the loan P of principal 1.
\<close>

lemma negative_rate_balanced:
  "map label (sort_values stable_argsort balanced_score (make_frame negative_rate_scenario)) =
     [1, 0]"
  "map principal (sort_values stable_argsort balanced_score (make_frame negative_rate_scenario)) =
     [Fin 0, Fin 1]"
  "map balanced_score
     (sort_values stable_argsort balanced_score (make_frame negative_rate_scenario)) =
     [PInf, Fin 0]"
  by (simp_all add: sort_values_def nargsort_def make_frame_def make_row_def
      negative_rate_scenario_def loan_def stable_argsort_def argsort_by_def cell_def upt_rec
      Let_def inf_of_sign_def)

lemma negative_rate_not_last:
  "\<not> zero_after_positive
       (sort_values stable_argsort balanced_score (make_frame negative_rate_scenario))"
  by (simp add: zero_after_positive_def sort_values_def nargsort_def make_frame_def make_row_def
      negative_rate_scenario_def loan_def stable_argsort_def argsort_by_def cell_def upt_rec
      Let_def inf_of_sign_def)

theorem negative_rate_counterexample:
  "\<not> isl (analyze_loan_payoff_strategy stable_argsort negative_rate_scenario) \<and>
   map label (balanced_method (strategies
     (projr (analyze_loan_payoff_strategy stable_argsort negative_rate_scenario)))) = [1, 0] \<and>
   map principal (balanced_method (strategies
     (projr (analyze_loan_payoff_strategy stable_argsort negative_rate_scenario)))) =
     [Fin 0, Fin 1] \<and>
   map balanced_score (balanced_method (strategies
     (projr (analyze_loan_payoff_strategy stable_argsort negative_rate_scenario)))) =
     [PInf, Fin 0] \<and>
   \<not> zero_after_positive (balanced_method (strategies
     (projr (analyze_loan_payoff_strategy stable_argsort negative_rate_scenario))))"
proof -
  from analyze_complete [of negative_rate_scenario stable_argsort]
    negative_rate_scenario_complete
  obtain rep where
    rep: "analyze_loan_payoff_strategy stable_argsort negative_rate_scenario = Inr rep"
    by blast
  show ?thesis
    by (simp add: rep analyze_Inr [OF rep] negative_rate_balanced negative_rate_not_last)
qed

subsection \<open>C5: a loan with principal 0 does not stop the analysis\<close>

lemma rows_of_input_sort_values:
  assumes "argsort_contract argsort"
  shows "rows_of_input loans (sort_values argsort col (make_frame loans))"
proof -
  have "mset (sort_values argsort col (make_frame loans)) = mset (make_frame loans)"
    using assms by (rule mset_sort_values)
  then have "mset (map label (sort_values argsort col (make_frame loans))) =
      mset [0..<length loans]"
    by (metis mset_map map_label_make_frame)
  moreover have "r = make_row (label r) (loans ! label r)"
    if "r \<in> set (sort_values argsort col (make_frame loans))" for r
  proof -
    from that assms have "r \<in> set (make_frame loans)" by (simp add: set_sort_values)
    then obtain i where "i < length loans" "r = make_row i (loans ! i)"
      by (auto simp: set_make_frame)
    then show ?thesis by (simp add: label_make_row)
  qed
  ultimately show ?thesis unfolding rows_of_input_def by blast
qed

lemma not_finite_inf_of_sign: "\<not> is_finite (inf_of_sign s)"
  by (simp add: inf_of_sign_def)

text \<open>
  C5. For a non-empty list of complete loans and any argsort that meets numpy's contract,
  the analysis returns. Every input position occurs once in each ranking, and each row
  is computed from its own dictionary alone. The monthly interest and the avalanche and
  snowball scores of every loan are finite. A loan with principal 0 has a non-finite
  interest-to-principal ratio and a non-finite balanced score (in particular when its
  rate is not 0); a loan with another principal has a finite ratio, and one with a
  positive principal a finite balanced score.
\<close>

theorem zero_principal_tolerated:
  assumes "argsort_contract argsort"
    and "loans \<noteq> []"
    and "\<forall>l \<in> set loans. complete_loan l"
  shows "\<exists>rep. analyze_loan_payoff_strategy argsort loans = Inr rep \<and>
     rows_of_input loans (avalanche_method (strategies rep)) \<and>
     rows_of_input loans (snowball_method (strategies rep)) \<and>
     rows_of_input loans (balanced_method (strategies rep)) \<and>
     (\<forall>i < length loans.
        is_finite (monthly_interest (make_row i (loans ! i))) \<and>
        is_finite (avalanche_score (make_row i (loans ! i))) \<and>
        is_finite (snowball_score (make_row i (loans ! i))) \<and>
        (principal (make_row i (loans ! i)) = Fin 0 \<longrightarrow>
           \<not> is_finite (interest_principal_ratio (make_row i (loans ! i))) \<and>
           \<not> is_finite (balanced_score (make_row i (loans ! i)))) \<and>
        (principal (make_row i (loans ! i)) \<noteq> Fin 0 \<longrightarrow>
           is_finite (interest_principal_ratio (make_row i (loans ! i)))) \<and>
        (flt (Fin 0) (principal (make_row i (loans ! i))) \<longrightarrow>
           is_finite (balanced_score (make_row i (loans ! i)))))"
proof -
  from analyze_complete [OF assms(2,3), of argsort]
  obtain rep where rep: "analyze_loan_payoff_strategy argsort loans = Inr rep" by blast
  have rows: "rows_of_input loans (sort_values argsort col (make_frame loans))" for col
    using assms(1) by (rule rows_of_input_sort_values)
  have fields: "is_finite (monthly_interest (make_row i (loans ! i))) \<and>
        is_finite (avalanche_score (make_row i (loans ! i))) \<and>
        is_finite (snowball_score (make_row i (loans ! i))) \<and>
        (principal (make_row i (loans ! i)) = Fin 0 \<longrightarrow>
           \<not> is_finite (interest_principal_ratio (make_row i (loans ! i))) \<and>
           \<not> is_finite (balanced_score (make_row i (loans ! i)))) \<and>
        (principal (make_row i (loans ! i)) \<noteq> Fin 0 \<longrightarrow>
           is_finite (interest_principal_ratio (make_row i (loans ! i)))) \<and>
        (flt (Fin 0) (principal (make_row i (loans ! i))) \<longrightarrow>
           is_finite (balanced_score (make_row i (loans ! i))))"
    if "i < length loans" for i
  proof -
    from that assms(3) have "complete_loan (loans ! i)" by simp
    then obtain n p q where pq: "get_principal (loans ! i) = Some (Fin p)"
      "get_rate (loans ! i) = Some (Fin q)" by (rule complete_loanD)
    show ?thesis
      unfolding make_row_complete [OF pq]
      by (simp add: not_finite_inf_of_sign)
  qed
  from rep rows fields show ?thesis
    by (intro exI [of _ rep]) (simp add: analyze_Inr [OF rep])
qed

lemma paid_off_row:
  "interest_principal_ratio (make_row 1 (paid_off_scenario ! 1)) = PInf"
  "balanced_score (make_row 1 (paid_off_scenario ! 1)) = NInf"
  "monthly_interest (make_row 1 (paid_off_scenario ! 1)) = Fin 0"
  "interest_principal_ratio (make_row 0 (paid_off_scenario ! 0)) = Fin (1 / 20)"
  "balanced_score (make_row 0 (paid_off_scenario ! 0)) = Fin 0"
  by (simp_all add: make_row_def paid_off_scenario_def loan_def cell_def Let_def
      inf_of_sign_def round2_def rint_def fl_0)

theorem zero_principal_tolerated_witness:
  "argsort_contract stable_argsort \<and> paid_off_scenario \<noteq> [] \<and>
   list_all complete_loan paid_off_scenario \<and>
   (\<exists>rep. analyze_loan_payoff_strategy stable_argsort paid_off_scenario = Inr rep \<and>
      rows_of_input paid_off_scenario (avalanche_method (strategies rep)) \<and>
      rows_of_input paid_off_scenario (snowball_method (strategies rep)) \<and>
      rows_of_input paid_off_scenario (balanced_method (strategies rep))) \<and>
   interest_principal_ratio (make_row 1 (paid_off_scenario ! 1)) = PInf \<and>
   balanced_score (make_row 1 (paid_off_scenario ! 1)) = NInf \<and>
   monthly_interest (make_row 1 (paid_off_scenario ! 1)) = Fin 0 \<and>
   interest_principal_ratio (make_row 0 (paid_off_scenario ! 0)) = Fin (1 / 20) \<and>
   balanced_score (make_row 0 (paid_off_scenario ! 0)) = Fin 0"
proof -
  have c: "\<forall>l \<in> set paid_off_scenario. complete_loan l" and ne: "paid_off_scenario \<noteq> []"
    using paid_off_scenario_complete by simp_all
  from zero_principal_tolerated [OF stable_argsort_contract ne c]
  have "\<exists>rep. analyze_loan_payoff_strategy stable_argsort paid_off_scenario = Inr rep \<and>
      rows_of_input paid_off_scenario (avalanche_method (strategies rep)) \<and>
      rows_of_input paid_off_scenario (snowball_method (strategies rep)) \<and>
      rows_of_input paid_off_scenario (balanced_method (strategies rep))"
    by blast
  with stable_argsort_contract ne c paid_off_row show ?thesis by (simp add: list_all_iff)
qed

subsection \<open>C7: the extremal loans\<close>

lemma complete_frame_columns:
  shows "map rate (make_frame loans) = map (\<lambda>l. cell (get_rate l)) loans"
    and "map principal (make_frame loans) = map (\<lambda>l. cell (get_principal l)) loans"
proof -
  show "map rate (make_frame loans) = map (\<lambda>l. cell (get_rate l)) loans"
    by (rule nth_equalityI) (simp_all add: length_make_frame nth_make_frame make_row_def Let_def)
  show "map principal (make_frame loans) = map (\<lambda>l. cell (get_principal l)) loans"
    by (rule nth_equalityI) (simp_all add: length_make_frame nth_make_frame make_row_def Let_def)
qed

lemma first_max_argmax: "v \<noteq> [] \<Longrightarrow> NaN \<notin> set v \<Longrightarrow> first_max v (argmax v)"
  unfolding first_max_def by (rule argmax_first)

lemma first_min_argmin: "v \<noteq> [] \<Longrightarrow> NaN \<notin> set v \<Longrightarrow> first_min v (argmin v)"
  unfolding first_min_def by (rule argmin_first)

text \<open>
  C7. For a non-empty list of complete loans the analysis returns, and the three names
  of the summary are the names of the loans at the first position with the maximal rate,
  the first position with the minimal principal, and the first position with the maximal
  monthly interest.
\<close>

theorem extremal_loans_first:
  assumes "loans \<noteq> []"
    and "\<forall>l \<in> set loans. complete_loan l"
  shows "\<exists>rep i j k. analyze_loan_payoff_strategy argsort loans = Inr rep \<and>
     first_max (map (\<lambda>l. cell (get_rate l)) loans) i \<and>
     highest_interest_loan (summary rep) = get_name (loans ! i) \<and>
     first_min (map (\<lambda>l. cell (get_principal l)) loans) j \<and>
     smallest_balance_loan (summary rep) = get_name (loans ! j) \<and>
     first_max (map monthly_interest (make_frame loans)) k \<and>
     most_expensive_loan (summary rep) = get_name (loans ! k)"
proof -
  let ?df = "make_frame loans"
  let ?i = "argmax (map rate ?df)" and ?j = "argmin (map principal ?df)"
    and ?k = "argmax (map monthly_interest ?df)"
  from analyze_complete [OF assms, of argsort]
  obtain rep where rep: "analyze_loan_payoff_strategy argsort loans = Inr rep"
    and h: "highest_interest_loan (summary rep) = name (?df ! ?i)"
    and s: "smallest_balance_loan (summary rep) = name (?df ! ?j)"
    and e: "most_expensive_loan (summary rep) = name (?df ! ?k)"
    by blast
  have df: "?df \<noteq> []" using assms(1) by (metis length_make_frame length_0_conv)
  note cols = complete_columns [OF assms(2)]
  have i: "first_max (map rate ?df) ?i" using df cols(1) by (intro first_max_argmax) auto
  have j: "first_min (map principal ?df) ?j" using df cols(2) by (intro first_min_argmin) auto
  have k: "first_max (map monthly_interest ?df) ?k"
    using df cols(3) by (intro first_max_argmax) auto
  have nm: "name (?df ! m) = get_name (loans ! m)" if "m < length loans" for m
    using that by (simp add: nth_make_frame make_row_def Let_def)
  from i have "?i < length loans" by (simp add: first_max_def length_make_frame)
  with h have h': "highest_interest_loan (summary rep) = get_name (loans ! ?i)"
    by (simp add: nm)
  from j have "?j < length loans" by (simp add: first_min_def length_make_frame)
  with s have s': "smallest_balance_loan (summary rep) = get_name (loans ! ?j)"
    by (simp add: nm)
  from k have "?k < length loans" by (simp add: first_max_def length_make_frame)
  with e have e': "most_expensive_loan (summary rep) = get_name (loans ! ?k)"
    by (simp add: nm)
  from i j have i': "first_max (map (\<lambda>l. cell (get_rate l)) loans) ?i"
    and j': "first_min (map (\<lambda>l. cell (get_principal l)) loans) ?j"
    by (simp_all only: complete_frame_columns)
  from rep i' h' j' s' k e' show ?thesis by blast
qed

lemma first_max_unique: "first_max v i \<Longrightarrow> first_max v j \<Longrightarrow> i = j"
proof (rule ccontr)
  assume a: "first_max v i" "first_max v j" "i \<noteq> j"
  have False if "first_max v a" "first_max v b" "a < b" for a b
  proof -
    from that have "flt (v ! a) (v ! b)" "fle (v ! b) (v ! a)"
      by (simp_all add: first_max_def)
    then show False by (cases "v ! a"; cases "v ! b") auto
  qed
  with a show False by (metis linorder_neqE_nat)
qed

lemma first_min_unique: "first_min v i \<Longrightarrow> first_min v j \<Longrightarrow> i = j"
proof (rule ccontr)
  assume a: "first_min v i" "first_min v j" "i \<noteq> j"
  have False if "first_min v a" "first_min v b" "a < b" for a b
  proof -
    from that have "flt (v ! b) (v ! a)" "fle (v ! a) (v ! b)"
      by (simp_all add: first_min_def)
    then show False by (cases "v ! a"; cases "v ! b") auto
  qed
  with a show False by (metis linorder_neqE_nat)
qed

lemma monthly_interest_loan:
  "monthly_interest (make_row i (loan n p q m)) = Fin (round2 (interest64 p q))"
  by (rule make_row_complete) (simp_all add: loan_def)

lemma monthly_interest_column:
  "map monthly_interest (make_frame loans) = map (\<lambda>l. monthly_interest (make_row 0 l)) loans"
  by (rule nth_equalityI) (simp_all add: length_make_frame nth_make_frame make_row_def Let_def)

lemma scenario_monthly_interest:
  "map monthly_interest (make_frame scenario) =
     [Fin (fl (833 / 100)), Fin (fl (208 / 100)), Fin (fl (1667 / 100))]"
  by (simp only: monthly_interest_column scenario_def list.map monthly_interest_loan
      interest_A interest_B interest_C)

lemma scenario_extremes:
  "first_max (map (\<lambda>l. cell (get_rate l)) scenario) 0"
  "first_min (map (\<lambda>l. cell (get_principal l)) scenario) 1"
  "first_max (map monthly_interest (make_frame scenario)) 2"
proof -
  show "first_max (map (\<lambda>l. cell (get_rate l)) scenario) 0"
    "first_min (map (\<lambda>l. cell (get_principal l)) scenario) 1"
    by (simp_all add: first_max_def first_min_def scenario_def loan_def cell_def
        All_less_Suc numeral_2_eq_2)
  show "first_max (map monthly_interest (make_frame scenario)) 2"
    unfolding scenario_monthly_interest fl_cents_833 fl_cents_208 fl_cents_1667
    by (simp add: first_max_def All_less_Suc numeral_2_eq_2)
qed

theorem extremal_loans_first_witness:
  "scenario \<noteq> [] \<and> list_all complete_loan scenario \<and>
   (\<exists>rep. analyze_loan_payoff_strategy stable_argsort scenario = Inr rep \<and>
      highest_interest_loan (summary rep) = Some ''A'' \<and>
      smallest_balance_loan (summary rep) = Some ''B'' \<and>
      most_expensive_loan (summary rep) = Some ''C'')"
proof -
  have c: "\<forall>l \<in> set scenario. complete_loan l" and ne: "scenario \<noteq> []"
    using scenario_complete by simp_all
  from extremal_loans_first [OF ne c, of stable_argsort]
  obtain rep i j k where rep: "analyze_loan_payoff_strategy stable_argsort scenario = Inr rep"
    and i: "first_max (map (\<lambda>l. cell (get_rate l)) scenario) i"
      "highest_interest_loan (summary rep) = get_name (scenario ! i)"
    and j: "first_min (map (\<lambda>l. cell (get_principal l)) scenario) j"
      "smallest_balance_loan (summary rep) = get_name (scenario ! j)"
    and k: "first_max (map monthly_interest (make_frame scenario)) k"
      "most_expensive_loan (summary rep) = get_name (scenario ! k)"
    by blast
  have "i = 0" using i(1) scenario_extremes(1) by (rule first_max_unique)
  moreover have "j = 1" using j(1) scenario_extremes(2) by (rule first_min_unique)
  moreover have "k = 2" using k(1) scenario_extremes(3) by (rule first_max_unique)
  ultimately have "highest_interest_loan (summary rep) = Some ''A'' \<and>
      smallest_balance_loan (summary rep) = Some ''B'' \<and>
      most_expensive_loan (summary rep) = Some ''C''"
    using i(2) j(2) k(2) by (simp add: scenario_def loan_def)
  with rep have "\<exists>rep. analyze_loan_payoff_strategy stable_argsort scenario = Inr rep \<and>
      highest_interest_loan (summary rep) = Some ''A'' \<and>
      smallest_balance_loan (summary rep) = Some ''B'' \<and>
      most_expensive_loan (summary rep) = Some ''C''"
    by (intro exI [of _ rep]) simp
  with c ne show ?thesis by (simp add: list_all_iff)
qed

subsection \<open>C9: the rounding of the monthly interest\<close>

text \<open>The error of a float64 rounding on top of a relative error \<open>d\<close>.\<close>

lemma fl_chain:
  assumes "\<bar>a - A\<bar> \<le> \<bar>A\<bar> * d" "0 \<le> d"
  shows "\<bar>fl a - A\<bar> \<le> \<bar>A\<bar> * (d + (1 + d) / 2 ^ 53)"
proof -
  have "\<bar>a\<bar> \<le> \<bar>A\<bar> + \<bar>a - A\<bar>" by simp
  with assms(1) have a: "\<bar>a\<bar> \<le> \<bar>A\<bar> * (1 + d)" by (simp add: algebra_simps)
  have "\<bar>fl a - A\<bar> \<le> \<bar>fl a - a\<bar> + \<bar>a - A\<bar>" by simp
  also have "\<dots> \<le> \<bar>a\<bar> / 2 ^ 53 + \<bar>A\<bar> * d"
    using fl_error [of a] assms(1) by simp
  also have "\<dots> \<le> \<bar>A\<bar> * (1 + d) / 2 ^ 53 + \<bar>A\<bar> * d"
    using a by (simp add: divide_right_mono)
  finally show ?thesis by (simp add: algebra_simps)
qed

lemma abs_diff_mult: "\<bar>c * a - c * b\<bar> = \<bar>c\<bar> * \<bar>a - (b :: real)\<bar>"
  by (metis abs_mult right_diff_distrib)

lemma scale_error:
  assumes "\<bar>a - A\<bar> \<le> \<bar>A\<bar> * d"
  shows "\<bar>c * a - c * A\<bar> \<le> \<bar>c * A\<bar> * (d :: real)"
proof -
  have "\<bar>c * a - c * A\<bar> = \<bar>c\<bar> * \<bar>a - A\<bar>" by (rule abs_diff_mult)
  also have "\<dots> \<le> \<bar>c\<bar> * (\<bar>A\<bar> * d)"
    using assms by (rule mult_left_mono) simp
  finally show ?thesis by (simp add: abs_mult mult.assoc)
qed

lemma scale_error_right:
  assumes "\<bar>a - A\<bar> \<le> \<bar>A\<bar> * d"
  shows "\<bar>a * c - c * A\<bar> \<le> \<bar>c * A\<bar> * (d :: real)"
  using scale_error [OF assms, of c] by (simp only: mult.commute [of a c])

lemma divide_error:
  assumes "\<bar>a - A\<bar> \<le> \<bar>A\<bar> * d"
  shows "\<bar>a / c - A / c\<bar> \<le> \<bar>A / c\<bar> * (d :: real)"
  using scale_error [OF assms, of "1 / c"] by simp

text \<open>
  Four float64 operations lead from the cells to 100 times the monthly interest; their
  relative error adds up to less than \<open>2 ^ -50\<close>.
\<close>

lemma interest64_error:
  "\<bar>fl (interest64 p q * 100) - 100 * (p * (q / 100) / 12)\<bar>
     \<le> \<bar>100 * (p * (q / 100) / 12)\<bar> / 2 ^ 50"
proof -
  define d1 :: real where "d1 = 0 + (1 + 0) / 2 ^ 53"
  define d2 :: real where "d2 = d1 + (1 + d1) / 2 ^ 53"
  define d3 :: real where "d3 = d2 + (1 + d2) / 2 ^ 53"
  define d4 :: real where "d4 = d3 + (1 + d3) / 2 ^ 53"
  have pos: "0 \<le> d1" "0 \<le> d2" "0 \<le> d3"
    by (simp_all add: d1_def d2_def d3_def)
  have small: "d4 \<le> 1 / 2 ^ 50"
    by (simp add: d1_def d2_def d3_def d4_def)
  have "\<bar>q / 100 - q / 100\<bar> \<le> \<bar>q / 100\<bar> * 0" by simp
  then have 1: "\<bar>fl (q / 100) - q / 100\<bar> \<le> \<bar>q / 100\<bar> * d1"
    unfolding d1_def by (rule fl_chain) simp
  then have "\<bar>p * fl (q / 100) - p * (q / 100)\<bar> \<le> \<bar>p * (q / 100)\<bar> * d1"
    by (rule scale_error)
  then have 2: "\<bar>fl (p * fl (q / 100)) - p * (q / 100)\<bar> \<le> \<bar>p * (q / 100)\<bar> * d2"
    unfolding d2_def using pos(1) by (rule fl_chain)
  then have "\<bar>fl (p * fl (q / 100)) / 12 - p * (q / 100) / 12\<bar>
      \<le> \<bar>p * (q / 100) / 12\<bar> * d2"
    by (rule divide_error)
  then have 3: "\<bar>interest64 p q - p * (q / 100) / 12\<bar> \<le> \<bar>p * (q / 100) / 12\<bar> * d3"
    unfolding d3_def interest64_def using pos(2) by (rule fl_chain)
  then have "\<bar>interest64 p q * 100 - 100 * (p * (q / 100) / 12)\<bar>
      \<le> \<bar>100 * (p * (q / 100) / 12)\<bar> * d3"
    by (rule scale_error_right)
  then have "\<bar>fl (interest64 p q * 100) - 100 * (p * (q / 100) / 12)\<bar>
      \<le> \<bar>100 * (p * (q / 100) / 12)\<bar> * d4"
    unfolding d4_def using pos(3) by (rule fl_chain)
  also have "\<dots> \<le> \<bar>100 * (p * (q / 100) / 12)\<bar> * (1 / 2 ^ 50)"
    using small by (rule mult_left_mono) simp
  finally show ?thesis by simp
qed

lemma round2_interest64:
  "\<exists>k::int. round2 (interest64 p q) = fl (of_int k / 100) \<and>
     \<bar>of_int k - fl (interest64 p q * 100)\<bar> \<le> 1 / 2 \<and>
     (\<bar>of_int k - fl (interest64 p q * 100)\<bar> = 1 / 2 \<longrightarrow> even k) \<and>
     \<bar>of_int k / 100 - p * (q / 100) / 12\<bar> \<le> 1 / 200 + \<bar>p * (q / 100) / 12\<bar> / 2 ^ 50"
proof -
  let ?y = "fl (interest64 p q * 100)" and ?E = "p * (q / 100) / 12"
  from rint_nearest_even [of ?y] obtain k :: int where
    k: "rint ?y = of_int k" "\<bar>of_int k - ?y\<bar> \<le> 1 / 2"
    "\<bar>of_int k - ?y\<bar> = 1 / 2 \<longrightarrow> even k"
    by blast
  have "\<bar>of_int k - 100 * ?E\<bar> \<le> \<bar>of_int k - ?y\<bar> + \<bar>?y - 100 * ?E\<bar>" by simp
  also have "\<dots> \<le> 1 / 2 + \<bar>100 * ?E\<bar> / 2 ^ 50"
    using k(2) interest64_error [of p q] by simp
  finally have "\<bar>of_int k - 100 * ?E\<bar> / 100 \<le> (1 / 2 + \<bar>100 * ?E\<bar> / 2 ^ 50) / 100"
    by (rule divide_right_mono) simp
  moreover have "\<bar>of_int k / 100 - ?E\<bar> = \<bar>of_int k - 100 * ?E\<bar> / 100"
    by (simp add: abs_if field_simps)
  moreover have "(1 / 2 + \<bar>100 * ?E\<bar> / 2 ^ 50) / 100 = 1 / 200 + \<bar>?E\<bar> / 2 ^ 50"
    by (simp add: abs_mult add_divide_distrib)
  ultimately have "\<bar>of_int k / 100 - ?E\<bar> \<le> 1 / 200 + \<bar>?E\<bar> / 2 ^ 50"
    by simp
  with k show ?thesis
    by (intro exI [of _ k]) (simp add: round2_def)
qed

text \<open>
  C9, as the code has it. In every ranking that the analysis returns, the monthly
  interest of a row with principal \<open>p\<close> and rate \<open>q\<close> (both finite) is numpy's round of the
  float64 product \<open>interest64 p q\<close>: the float64 nearest to \<open>k / 100\<close> for the whole number
  \<open>k\<close> of cents nearest (a tie to the even one) to the float64 value of 100 times that
  product. So \<open>k\<close> cents are at most half a cent, plus \<open>2 ^ -50\<close> of the exact value, from
  the exact \<open>p * (q / 100) / 12\<close>. Where the exact value lies half way between two cents,
  the float64 error of the product decides which one is taken.
\<close>

theorem monthly_interest_nearest_cent:
  assumes "argsort_contract argsort"
    and "analyze_loan_payoff_strategy argsort loans = Inr rep"
    and "r \<in> set (avalanche_method (strategies rep)) \<union> set (snowball_method (strategies rep))
           \<union> set (balanced_method (strategies rep))"
    and "principal r = Fin p" and "rate r = Fin q"
  shows "monthly_interest r = Fin (round2 (interest64 p q)) \<and>
         (\<exists>k::int. monthly_interest r = Fin (fl (of_int k / 100)) \<and>
            \<bar>of_int k - fl (interest64 p q * 100)\<bar> \<le> 1 / 2 \<and>
            (\<bar>of_int k - fl (interest64 p q * 100)\<bar> = 1 / 2 \<longrightarrow> even k) \<and>
            \<bar>of_int k / 100 - p * (q / 100) / 12\<bar>
              \<le> 1 / 200 + \<bar>p * (q / 100) / 12\<bar> / 2 ^ 50)"
proof -
  from assms(1,3) have "r \<in> set (make_frame loans)"
    unfolding analyze_Inr [OF assms(2)] by (auto simp: set_sort_values)
  then obtain i where "r = make_row i (loans ! i)" by (auto simp: set_make_frame)
  then have "monthly_interest r =
      fround2 (fround (fdiv (fround (fmul (principal r) (fround (fdiv (rate r) (Fin 100)))))
        (Fin 12)))"
    by (simp add: make_row_def Let_def)
  then have m: "monthly_interest r = Fin (round2 (interest64 p q))"
    by (simp add: assms(4,5) interest64_def)
  with round2_interest64 [of p q] show ?thesis by simp
qed

text \<open>The rows of a ranking, from its labels.\<close>

lemma ranking_by_labels:
  assumes "argsort_contract argsort"
  shows "sort_values argsort col (make_frame loans) =
     map (\<lambda>i. make_row i (loans ! i)) (map label (sort_values argsort col (make_frame loans)))"
proof -
  from rows_of_input_sort_values [OF assms, of loans col]
  have "\<forall>r \<in> set (sort_values argsort col (make_frame loans)).
      make_row (label r) (loans ! label r) = r"
    unfolding rows_of_input_def by simp
  then have "map (\<lambda>r. make_row (label r) (loans ! label r))
      (sort_values argsort col (make_frame loans)) = sort_values argsort col (make_frame loans)"
    by (simp add: map_idI)
  then show ?thesis by (simp add: comp_def)
qed

lemma half_cent_avalanche:
  "map label (sort_values stable_argsort avalanche_score (make_frame half_cent_scenario)) = [0, 1]"
  by (simp add: sort_values_def nargsort_def make_frame_def make_row_def half_cent_scenario_def
      loan_def stable_argsort_def argsort_by_def cell_def upt_rec Let_def)

lemma half_cent_rows:
  "sort_values stable_argsort avalanche_score (make_frame half_cent_scenario) =
     [make_row 0 (loan ''U'' 3 10 0), make_row 1 (loan ''V'' 30 1 0)]"
proof -
  have "sort_values stable_argsort avalanche_score (make_frame half_cent_scenario) =
      map (\<lambda>i. make_row i (half_cent_scenario ! i)) [0, 1]"
    using ranking_by_labels [OF stable_argsort_contract, of avalanche_score half_cent_scenario]
    by (simp only: half_cent_avalanche)
  then show ?thesis by (simp add: half_cent_scenario_def)
qed

lemma half_cent_monthly_interest:
  "map monthly_interest (sort_values stable_argsort avalanche_score (make_frame half_cent_scenario))
     = [Fin (fl (3 / 100)), Fin (fl (2 / 100))]"
  by (simp only: half_cent_rows list.map monthly_interest_loan interest_U interest_V)

lemma three_cents_not_two: "fl (3 / 100) \<noteq> fl (2 / 100)"
  unfolding fl_cents_3 fl_cents_2 by simp

theorem monthly_interest_nearest_cent_witness:
  "argsort_contract stable_argsort \<and>
   (\<exists>rep r k. analyze_loan_payoff_strategy stable_argsort half_cent_scenario = Inr rep \<and>
      r \<in> set (avalanche_method (strategies rep)) \<union> set (snowball_method (strategies rep))
           \<union> set (balanced_method (strategies rep)) \<and>
      principal r = Fin 3 \<and> rate r = Fin 10 \<and>
      monthly_interest r = Fin (fl (3 / 100)) \<and>
      monthly_interest r = Fin (fl (of_int k / 100)) \<and>
      \<bar>of_int k / 100 - (3 :: real) * (10 / 100) / 12\<bar>
        \<le> 1 / 200 + \<bar>3 * (10 / 100) / 12\<bar> / 2 ^ 50)"
proof -
  have "half_cent_scenario \<noteq> []" "\<forall>l \<in> set half_cent_scenario. complete_loan l"
    using half_cent_scenario_complete by simp_all
  from analyze_complete [OF this, of stable_argsort]
  obtain rep where
    rep: "analyze_loan_payoff_strategy stable_argsort half_cent_scenario = Inr rep"
    by blast
  let ?r = "make_row 0 (loan ''U'' 3 10 0)"
  have mem: "?r \<in> set (avalanche_method (strategies rep)) \<union>
      set (snowball_method (strategies rep)) \<union> set (balanced_method (strategies rep))"
    by (simp add: analyze_Inr [OF rep] half_cent_rows)
  have p: "principal ?r = Fin 3" and q: "rate ?r = Fin 10"
    by (simp_all add: make_row_def loan_def cell_def Let_def)
  have u: "monthly_interest ?r = Fin (fl (3 / 100))"
    by (simp only: monthly_interest_loan interest_U)
  from monthly_interest_nearest_cent [OF stable_argsort_contract rep mem p q]
  obtain k :: int where k: "monthly_interest ?r = Fin (fl (of_int k / 100))"
    "\<bar>of_int k / 100 - (3 :: real) * (10 / 100) / 12\<bar>
        \<le> 1 / 200 + \<bar>3 * (10 / 100) / 12\<bar> / 2 ^ 50"
    by blast
  have "\<exists>rep r k. analyze_loan_payoff_strategy stable_argsort half_cent_scenario = Inr rep \<and>
      r \<in> set (avalanche_method (strategies rep)) \<union> set (snowball_method (strategies rep))
           \<union> set (balanced_method (strategies rep)) \<and>
      principal r = Fin 3 \<and> rate r = Fin 10 \<and>
      monthly_interest r = Fin (fl (3 / 100)) \<and>
      monthly_interest r = Fin (fl (of_int k / 100)) \<and>
      \<bar>of_int k / 100 - (3 :: real) * (10 / 100) / 12\<bar>
        \<le> 1 / 200 + \<bar>3 * (10 / 100) / 12\<bar> / 2 ^ 50"
    using rep mem p q u k by (intro exI [of _ rep] exI [of _ ?r] exI [of _ k] conjI)
  with stable_argsort_contract show ?thesis by (intro conjI)
qed

text \<open>
  C9 as stated fails: the loans U (3 at 10 percent) and V (30 at 1 percent) both accrue
  exactly 0.025 a month, and their monthly interest is 0.03 and 0.02. So the result is
  not the exact value rounded under one rule: rounding a tie to the even cent gives
  0.02 for both, rounding it away from zero gives 0.03 for both.
\<close>

theorem monthly_interest_counterexample:
  "(3 :: real) * (10 / 100) / 12 = 30 * (1 / 100) / 12 \<and>
   \<not> isl (analyze_loan_payoff_strategy stable_argsort half_cent_scenario) \<and>
   map monthly_interest (avalanche_method (strategies
     (projr (analyze_loan_payoff_strategy stable_argsort half_cent_scenario)))) =
     [Fin (fl (3 / 100)), Fin (fl (2 / 100))] \<and>
   fl (3 / 100) \<noteq> fl (2 / 100)"
proof -
  from analyze_complete [of half_cent_scenario stable_argsort] half_cent_scenario_complete
  obtain rep where
    rep: "analyze_loan_payoff_strategy stable_argsort half_cent_scenario = Inr rep"
    by blast
  have "(3 :: real) * (10 / 100) / 12 = 30 * (1 / 100) / 12" by simp
  moreover have "map monthly_interest (avalanche_method (strategies rep)) =
      [Fin (fl (3 / 100)), Fin (fl (2 / 100))]"
    by (simp only: analyze_Inr [OF rep] half_cent_monthly_interest)
  ultimately show ?thesis
    using three_cents_not_two by (simp only: rep sum.sel sum.disc) simp
qed

subsection \<open>C8: dictionaries with missing keys\<close>

lemma analyze_isl_iff:
  "isl (analyze_loan_payoff_strategy argsort loans) \<longleftrightarrow>
     \<not> (has_column get_principal loans \<and> has_column get_rate loans \<and>
        has_column get_name loans \<and>
        \<not> list_all (\<lambda>x. x = NaN) (map rate (make_frame loans)) \<and>
        \<not> list_all (\<lambda>x. x = NaN) (map principal (make_frame loans)) \<and>
        \<not> list_all (\<lambda>x. x = NaN) (map monthly_interest (make_frame loans)))"
  by (simp add: analyze_loan_payoff_strategy_def Let_def lookup_name_def loc_name_def
      idxmax_def idxmin_def split: sum.splits flip: keep_none)

lemma analyze_errors:
  "analyze_loan_payoff_strategy argsort loans = Inl e \<Longrightarrow>
     e \<in> {KeyError ''principal'', KeyError ''rate'', KeyError ''name'', AllNA}"
  by (simp add: analyze_loan_payoff_strategy_def Let_def lookup_name_def loc_name_def
      idxmax_def idxmin_def split: sum.splits if_splits)

lemma partial_scenario_returns:
  "\<not> isl (analyze_loan_payoff_strategy stable_argsort partial_scenario)"
  unfolding analyze_isl_iff
  by (simp add: partial_scenario_def loan_def has_column_def make_frame_def make_row_def
      cell_def Let_def upt_rec)

lemma partial_scenario_cells:
  "get_principal (partial_scenario ! 1) = None"
  "principal (make_frame partial_scenario ! 1) = NaN"
  "monthly_interest (make_frame partial_scenario ! 1) = NaN"
  "get_name (partial_scenario ! 2) \<noteq> None"
  "get_principal (partial_scenario ! 2) \<noteq> None"
  "get_rate (partial_scenario ! 2) \<noteq> None"
  "get_min_payment (partial_scenario ! 2) = None"
  "min_payment (make_frame partial_scenario ! 2) = NaN"
  by (simp_all add: partial_scenario_def loan_def make_frame_def make_row_def
      cell_def Let_def upt_rec)

text \<open>
  C8, as the code has it. The function does not look at single dictionaries: a missing
  key becomes a NaN cell (for \<^verbatim>\<open>'min_payment'\<close> too: NaN, not 0). The analysis fails if
  and only if no dictionary has \<^verbatim>\<open>'principal'\<close>, or none has \<^verbatim>\<open>'rate'\<close>, or none has
  \<^verbatim>\<open>'name'\<close>, or one of the columns rate, principal and monthly_interest has no
  non-NaN cell. The error is then the KeyError of the missing column or, for a column
  without a non-NaN cell, an error that names nothing; it never names a dictionary.
\<close>

theorem missing_keys_become_NaN:
  "(isl (analyze_loan_payoff_strategy argsort loans) \<longleftrightarrow>
      \<not> (has_column get_principal loans \<and> has_column get_rate loans \<and>
         has_column get_name loans \<and>
         \<not> list_all (\<lambda>x. x = NaN) (map rate (make_frame loans)) \<and>
         \<not> list_all (\<lambda>x. x = NaN) (map principal (make_frame loans)) \<and>
         \<not> list_all (\<lambda>x. x = NaN) (map monthly_interest (make_frame loans)))) \<and>
   (\<forall>e. analyze_loan_payoff_strategy argsort loans = Inl e \<longrightarrow>
      e \<in> {KeyError ''principal'', KeyError ''rate'', KeyError ''name'', AllNA}) \<and>
   (\<forall>i < length loans.
      (get_name (loans ! i) = None \<longrightarrow> name (make_frame loans ! i) = None) \<and>
      (get_principal (loans ! i) = None \<longrightarrow> principal (make_frame loans ! i) = NaN) \<and>
      (get_rate (loans ! i) = None \<longrightarrow> rate (make_frame loans ! i) = NaN) \<and>
      (get_min_payment (loans ! i) = None \<longrightarrow> min_payment (make_frame loans ! i) = NaN))"
proof -
  have "(get_name (loans ! i) = None \<longrightarrow> name (make_frame loans ! i) = None) \<and>
      (get_principal (loans ! i) = None \<longrightarrow> principal (make_frame loans ! i) = NaN) \<and>
      (get_rate (loans ! i) = None \<longrightarrow> rate (make_frame loans ! i) = NaN) \<and>
      (get_min_payment (loans ! i) = None \<longrightarrow> min_payment (make_frame loans ! i) = NaN)"
    if "i < length loans" for i
    using that by (simp add: nth_make_frame make_row_def cell_def Let_def)
  with analyze_isl_iff [of argsort loans] analyze_errors [of argsort loans]
  show ?thesis by blast
qed

theorem missing_keys_become_NaN_witness:
  "\<not> isl (analyze_loan_payoff_strategy stable_argsort partial_scenario) \<and>
   get_principal (partial_scenario ! 1) = None \<and>
   principal (make_frame partial_scenario ! 1) = NaN \<and>
   get_min_payment (partial_scenario ! 2) = None \<and>
   min_payment (make_frame partial_scenario ! 2) = NaN"
proof -
  have cols: "has_column get_principal partial_scenario \<and> has_column get_rate partial_scenario \<and>
      has_column get_name partial_scenario \<and>
      \<not> list_all (\<lambda>x. x = NaN) (map rate (make_frame partial_scenario)) \<and>
      \<not> list_all (\<lambda>x. x = NaN) (map principal (make_frame partial_scenario)) \<and>
      \<not> list_all (\<lambda>x. x = NaN) (map monthly_interest (make_frame partial_scenario))"
    by (simp add: partial_scenario_def loan_def has_column_def make_frame_def make_row_def
        cell_def Let_def upt_rec)
  have len: "1 < length partial_scenario" "2 < length partial_scenario"
    by (simp_all add: partial_scenario_def)
  from missing_keys_become_NaN [of stable_argsort partial_scenario] cols
  have "\<not> isl (analyze_loan_payoff_strategy stable_argsort partial_scenario)"
    by blast
  moreover from missing_keys_become_NaN [of stable_argsort partial_scenario] len(1)
  have "get_principal (partial_scenario ! 1) = None \<longrightarrow>
      principal (make_frame partial_scenario ! 1) = NaN"
    by blast
  moreover from missing_keys_become_NaN [of stable_argsort partial_scenario] len(2)
  have "get_min_payment (partial_scenario ! 2) = None \<longrightarrow>
      min_payment (make_frame partial_scenario ! 2) = NaN"
    by blast
  ultimately show ?thesis using partial_scenario_cells(1,7) by simp
qed

text \<open>
  C8 as stated fails twice on one input. Its second dictionary has no \<^verbatim>\<open>'principal'\<close>,
  and the analysis returns a report (the cell is NaN); its third dictionary lacks
  \<^verbatim>\<open>'min_payment'\<close> only, and its \<open>min_payment\<close> cell is NaN, which is not 0.
\<close>

theorem missing_keys_counterexample:
  "get_principal (partial_scenario ! 1) = None \<and>
   \<not> isl (analyze_loan_payoff_strategy stable_argsort partial_scenario) \<and>
   get_name (partial_scenario ! 2) \<noteq> None \<and>
   get_principal (partial_scenario ! 2) \<noteq> None \<and>
   get_rate (partial_scenario ! 2) \<noteq> None \<and>
   get_min_payment (partial_scenario ! 2) = None \<and>
   min_payment (make_frame partial_scenario ! 2) \<noteq> Fin 0"
  using partial_scenario_returns partial_scenario_cells by simp

end
